theory Spec2Isabelle
  imports Main
begin

section \<open>Data model of gpm.go\<close>

text \<open>
  Go strings are byte sequences; they are modelled as \<^typ>\<open>string\<close>, whose characters
  are the 256 byte values.

  The descriptive fields of \<^verbatim>\<open>Command\<close> form the record \<open>cmd_text\<close>; the handler
  field \<^verbatim>\<open>Run\<close> is added by the extension \<open>Command\<close> below, since a handler receives
  the command it belongs to.
\<close>

record cmd_text =
  UsageLine :: string
  Short :: string
  Long :: string
  Flags :: "string \<rightharpoonup> bool"

text \<open>
  The package-level variables that handlers and cleanup closures can reach: the exit
  status, what has been written to \<^verbatim>\<open>os.Stdout\<close> and \<^verbatim>\<open>os.Stderr\<close>, and everything
  else outside this file (\<open>other\<close>).
\<close>

record 'w vars =
  exitStatus :: int
  Stdout :: string
  Stderr :: string
  other :: 'w

text \<open>
  \<^verbatim>\<open>var atexitFuncs []func()\<close>: a cleanup closure is a transformer of the variables.
  It is modelled as returning normally; a closure that panics or ends the process
  itself does not return to the code of this file.
\<close>

record 'w proc =
  vars :: "'w vars"
  atexitFuncs :: "('w vars \<Rightarrow> 'w vars) list"

text \<open>
  \<^verbatim>\<open>Run func(cmd *Command, args []string)\<close>; \<open>None\<close> is Go's \<^verbatim>\<open>nil\<close>. A handler is
  modelled as returning normally.
\<close>

record 'w Command = cmd_text +
  Run :: "(cmd_text \<Rightarrow> string list \<Rightarrow> 'w proc \<Rightarrow> 'w proc) option"

section \<open>Command.Name and Command.Runnable\<close>

text \<open>
  \<^verbatim>\<open>strings.Index(s, sep)\<close> for a one-byte separator: the index of its first
  occurrence, or \<open>-1\<close>.
\<close>

fun IndexByte :: "string \<Rightarrow> char \<Rightarrow> int" where
  "IndexByte [] c = - 1"
| "IndexByte (x # xs) c =
     (if x = c then 0
      else (let i = IndexByte xs c in if i < 0 then - 1 else i + 1))"

definition Name :: "'a cmd_text_scheme \<Rightarrow> string" where
  "Name c =
     (let name = UsageLine c;
          i = IndexByte name (CHR '' '')
      in if i \<ge> 0 then take (nat i) name else name)"

definition Runnable :: "('w, 'a) Command_scheme \<Rightarrow> bool" where
  "Runnable c = (Run c \<noteq> None)"

section \<open>Exit status and cleanup chain\<close>

text \<open>
  \<^verbatim>\<open>var exitStatus = 0\<close> and \<^verbatim>\<open>var atexitFuncs []func()\<close>: the state of a process
  at start. Go's \<^verbatim>\<open>int\<close> is compared only, never computed with, so \<^typ>\<open>int\<close> models it.
\<close>

definition init_vars :: "'w \<Rightarrow> 'w vars" where
  "init_vars w = \<lparr>exitStatus = 0, Stdout = [], Stderr = [], other = w\<rparr>"

definition init_proc :: "'w \<Rightarrow> 'w proc" where
  "init_proc w = \<lparr>vars = init_vars w, atexitFuncs = []\<rparr>"

text \<open>The body of \<^verbatim>\<open>setExitStatus\<close> between \<^verbatim>\<open>exitMu.Lock()\<close> and \<^verbatim>\<open>exitMu.Unlock()\<close>.\<close>

definition setExitStatus :: "int \<Rightarrow> 'w vars \<Rightarrow> 'w vars" where
  "setExitStatus n v = (if exitStatus v < n then v\<lparr>exitStatus := n\<rparr> else v)"

definition atexit :: "('w vars \<Rightarrow> 'w vars) \<Rightarrow> 'w proc \<Rightarrow> 'w proc" where
  "atexit f p = p\<lparr>atexitFuncs := atexitFuncs p @ [f]\<rparr>"

section \<open>Concurrent calls of setExitStatus\<close>

text \<open>
  Concurrent calls of \<^verbatim>\<open>setExitStatus\<close>. Each call is at one of five points: before
  \<^verbatim>\<open>exitMu.Lock()\<close>, before the test \<^verbatim>\<open>exitStatus < n\<close>, before the assignment
  \<^verbatim>\<open>exitStatus = n\<close>, before \<^verbatim>\<open>exitMu.Unlock()\<close>, or returned.
\<close>

datatype point = at_Lock | at_test | at_store | at_Unlock | returned_call

record caller =
  point :: point
  status_arg :: int

text \<open>
  The state the calls share: the variables, the holder of \<^verbatim>\<open>exitMu\<close> (the index of the
  call that has locked it, if any) and the calls. \<open>acquired\<close> is kept by the model only:
  the arguments of the calls in the order in which they locked the mutex.
\<close>

record 'w shared =
  globals :: "'w vars"
  exitMu :: "nat option"
  callers :: "caller list"
  acquired :: "int list"

definition calls_start :: "'w vars \<Rightarrow> int list \<Rightarrow> 'w shared" where
  "calls_start v ns =
     \<lparr>globals = v, exitMu = None,
      callers = map (\<lambda>n. \<lparr>point = at_Lock, status_arg = n\<rparr>) ns,
      acquired = []\<rparr>"

text \<open>
  One step of call \<open>i\<close>. \<^verbatim>\<open>Lock\<close> can be taken only while no call holds the mutex; a
  call that is blocked, has returned or does not exist has no step (\<open>None\<close>).
\<close>

definition call_step :: "nat \<Rightarrow> 'w shared \<Rightarrow> 'w shared option" where
  "call_step i s =
     (if length (callers s) \<le> i then None
      else
        (let c = callers s ! i in
         case point c of
           at_Lock \<Rightarrow>
             (if exitMu s = None then
                Some (s\<lparr>exitMu := Some i,
                        callers := (callers s)[i := c\<lparr>point := at_test\<rparr>],
                        acquired := acquired s @ [status_arg c]\<rparr>)
              else None)
         | at_test \<Rightarrow>
             Some (s\<lparr>callers := (callers s)[i := c\<lparr>point :=
                     (if exitStatus (globals s) < status_arg c then at_store else at_Unlock)\<rparr>]\<rparr>)
         | at_store \<Rightarrow>
             Some (s\<lparr>globals := (globals s)\<lparr>exitStatus := status_arg c\<rparr>,
                     callers := (callers s)[i := c\<lparr>point := at_Unlock\<rparr>]\<rparr>)
         | at_Unlock \<Rightarrow>
             Some (s\<lparr>exitMu := None, callers := (callers s)[i := c\<lparr>point := returned_call\<rparr>]\<rparr>)
         | returned_call \<Rightarrow> None))"

text \<open>A schedule: the indices of the calls in the order in which they take their steps.\<close>

fun calls_run :: "nat list \<Rightarrow> 'w shared \<Rightarrow> 'w shared option" where
  "calls_run [] s = Some s"
| "calls_run (i # sch) s = (case call_step i s of None \<Rightarrow> None | Some s' \<Rightarrow> calls_run sch s')"

text \<open>A call is in its critical section between \<^verbatim>\<open>Lock\<close> and \<^verbatim>\<open>Unlock\<close>.\<close>

definition critical :: "caller \<Rightarrow> bool" where
  "critical c = (point c = at_test \<or> point c = at_store \<or> point c = at_Unlock)"

section \<open>Process runs\<close>

text \<open>
  A run of the code records, besides the final variables, how the process ended and
  which calls were made on the way: \<open>Handler i args\<close> is the call of the handler of the
  \<open>i\<close>-th registered command, \<open>Shutdown\<close> an entry into \<^verbatim>\<open>exit()\<close>, \<open>Cleanup k\<close> the call
  of the \<open>k\<close>-th element of \<^verbatim>\<open>atexitFuncs\<close>. The record of calls is kept by the model
  only; handlers and cleanup closures cannot touch it.
\<close>

datatype event = Handler nat "string list" | Shutdown | Cleanup nat

text \<open>
  \<open>Returned\<close>: the function returned to its caller (for \<^verbatim>\<open>main\<close>: the Go runtime ends
  the process with status 0). \<open>OsExit n\<close>: \<^verbatim>\<open>os.Exit(n)\<close> was called. \<open>Panic\<close>: an
  uncaught panic, which ends a Go process with status 2.
\<close>

datatype ending = Returned | OsExit int | Panic

fun exit_code :: "ending \<Rightarrow> int" where
  "exit_code Returned = 0"
| "exit_code (OsExit n) = n"
| "exit_code Panic = 2"

record 'w run =
  events :: "event list"
  ending :: ending
  final :: "'w proc"

text \<open>The loop \<^verbatim>\<open>for _, f := range atexitFuncs { f() }\<close>, from index \<open>k\<close> on.\<close>

fun run_atexit ::
  "('w vars \<Rightarrow> 'w vars) list \<Rightarrow> nat \<Rightarrow> event list \<Rightarrow> 'w vars \<Rightarrow> event list \<times> 'w vars" where
  "run_atexit [] k evs v = (evs, v)"
| "run_atexit (f # fs) k evs v = run_atexit fs (Suc k) (evs @ [Cleanup k]) (f v)"

definition exit :: "'w proc \<Rightarrow> 'w run" where
  "exit p =
     (case run_atexit (atexitFuncs p) 0 [Shutdown] (vars p) of
        (evs, v) \<Rightarrow> \<lparr>events = evs, ending = OsExit (exitStatus v), final = p\<lparr>vars := v\<rparr>\<rparr>)"

section \<open>Usage and help\<close>

text \<open>The two writers the code passes around.\<close>

datatype writer = os_Stdout | os_Stderr

fun Fprintf :: "writer \<Rightarrow> string \<Rightarrow> 'w vars \<Rightarrow> 'w vars" where
  "Fprintf os_Stdout s v = v\<lparr>Stdout := Stdout v @ s\<rparr>"
| "Fprintf os_Stderr s v = v\<lparr>Stderr := Stderr v @ s\<rparr>"

text \<open>The value a template is executed on: the registry, or one command.\<close>

datatype 'w tmpl_data = AllCommands "'w Command list" | OneCommand "'w Command"

text \<open>
  What the code takes from outside this file:
  \<^item> \<open>initialize\<close>: the effect and result of \<^verbatim>\<open>initialize()\<close>, which reads the
    installation directory, the configuration and the usage files;
  \<^item> \<open>commands\<close> and \<open>usageTemplate\<close>: the registry and the usage template as they
    stand after \<^verbatim>\<open>initialize()\<close> (\<^verbatim>\<open>cmdBuild\<close> and \<^verbatim>\<open>cmdInstall\<close> are declared in other
    files);
  \<^item> \<open>template\<close>: package \<^verbatim>\<open>text/template\<close> with the functions \<^verbatim>\<open>trim\<close> and
    \<^verbatim>\<open>capitalize\<close> installed: the text written for a template text and a value, and
    whether parsing and execution succeeded;
  \<^item> \<open>fmt_q\<close> and \<open>fmt_sharp_q\<close>: the verbs \<^verbatim>\<open>%q\<close> and \<^verbatim>\<open>%#q\<close> of package \<^verbatim>\<open>fmt\<close>.
\<close>

record 'w env =
  initialize :: "'w vars \<Rightarrow> 'w vars \<times> bool"
  commands :: "'w Command list"
  usageTemplate :: string
  template :: "string \<Rightarrow> 'w tmpl_data \<Rightarrow> string \<times> bool"
  fmt_q :: "string \<Rightarrow> string"
  fmt_sharp_q :: "string \<Rightarrow> string"

definition helpTemplate :: string where
  "helpTemplate =
     ''{{if .Runnable}}usage: gpm {{.UsageLine}}\<newline>\<newline>{{end}}{{.Long | trim}}\<newline>''"

text \<open>\<^verbatim>\<open>tmpl\<close>: the flag is \<open>False\<close> when \<^verbatim>\<open>template.Must\<close> or the code itself panics.\<close>

definition tmpl :: "'w env \<Rightarrow> writer \<Rightarrow> string \<Rightarrow> 'w tmpl_data \<Rightarrow> 'w vars \<Rightarrow> 'w vars \<times> bool" where
  "tmpl e w text data v = (case template e text data of (out, ok) \<Rightarrow> (Fprintf w out v, ok))"

definition printUsage :: "'w env \<Rightarrow> writer \<Rightarrow> 'w vars \<Rightarrow> 'w vars \<times> bool" where
  "printUsage e w v = tmpl e w (usageTemplate e) (AllCommands (commands e)) v"

definition usage :: "'w env \<Rightarrow> 'w proc \<Rightarrow> 'w run" where
  "usage e p =
     (case printUsage e os_Stderr (vars p) of
        (v, ok) \<Rightarrow>
          \<lparr>events = [], ending = (if ok then OsExit 2 else Panic), final = p\<lparr>vars := v\<rparr>\<rparr>)"

text \<open>
  \<^verbatim>\<open>help\<close> (named \<open>help_cmd\<close> here, \<open>help\<close> being a word of the theory language). First
  its loop over the registry with the statements after it.
\<close>

fun help_topic :: "'w env \<Rightarrow> 'w Command list \<Rightarrow> string \<Rightarrow> 'w proc \<Rightarrow> 'w run" where
  "help_topic e [] arg p =
     \<lparr>events = [], ending = OsExit 2,
      final = p\<lparr>vars := Fprintf os_Stderr
        (''Unknown help topic '' @ fmt_sharp_q e arg @ ''.  Run 'gpm help'.\<newline>'') (vars p)\<rparr>\<rparr>"
| "help_topic e (cmd # cmds) arg p =
     (if Name cmd = arg then
        (case tmpl e os_Stdout helpTemplate (OneCommand cmd) (vars p) of
           (v, ok) \<Rightarrow>
             \<lparr>events = [], ending = (if ok then Returned else Panic), final = p\<lparr>vars := v\<rparr>\<rparr>)
      else help_topic e cmds arg p)"

definition help_cmd :: "'w env \<Rightarrow> string list \<Rightarrow> 'w proc \<Rightarrow> 'w run" where
  "help_cmd e args p =
     (if length args = 0 then
        (case printUsage e os_Stdout (vars p) of
           (v, ok) \<Rightarrow>
             \<lparr>events = [], ending = (if ok then Returned else Panic), final = p\<lparr>vars := v\<rparr>\<rparr>)
      else if length args \<noteq> 1 then
        \<lparr>events = [], ending = OsExit 2,
         final = p\<lparr>vars := Fprintf os_Stderr
           ''usage: gpm help command\<newline>\<newline>Too many arguments given.\<newline>'' (vars p)\<rparr>\<rparr>
      else help_topic e (commands e) (hd args) p)"

section \<open>main\<close>

text \<open>
  The loop of \<^verbatim>\<open>main\<close> over the registry, from index \<open>i\<close> on, and the statements after
  it; \<open>a\<close> is \<^verbatim>\<open>args[0]\<close> and \<open>rest\<close> is \<^verbatim>\<open>args[1:]\<close>.
\<close>

fun dispatch :: "'w env \<Rightarrow> 'w Command list \<Rightarrow> nat \<Rightarrow> string \<Rightarrow> string list \<Rightarrow> 'w proc \<Rightarrow> 'w run" where
  "dispatch e [] i a rest p =
     exit (p\<lparr>vars := setExitStatus 2 (Fprintf os_Stderr
       (''gpm: unknown subcommand '' @ fmt_q e a @ ''\<newline>Run 'gpm help' for usage.\<newline>'')
       (vars p))\<rparr>)"
| "dispatch e (cmd # cmds) i a rest p =
     (if Name cmd = a \<and> Run cmd \<noteq> None then
        (let r = exit (the (Run cmd) (cmd_text.truncate cmd) rest p)
         in r\<lparr>events := Handler i rest # events r\<rparr>)
      else dispatch e cmds (Suc i) a rest p)"

text \<open>\<open>args\<close> is \<^verbatim>\<open>os.Args[1:]\<close>.\<close>

definition main :: "'w env \<Rightarrow> string list \<Rightarrow> 'w proc \<Rightarrow> 'w run" where
  "main e args p =
     (case initialize e (vars p) of
        (v, ok) \<Rightarrow>
          (let p0 = p\<lparr>vars := v\<rparr> in
           if \<not> ok then \<lparr>events = [], ending = Returned, final = p0\<rparr>
           else if length args < 1 then usage e p0
           else if hd args = ''help'' then help_cmd e (tl args) p0
           else dispatch e (commands e) 0 (hd args) (tl args) p0))"

section \<open>capitalize\<close>

text \<open>
  Runes are natural numbers. The library functions \<^verbatim>\<open>capitalize\<close> calls are written
  out after Go's standard library:
  \<^item> \<^verbatim>\<open>utf8.DecodeRuneInString\<close>, with its tables \<^verbatim>\<open>first\<close> and \<^verbatim>\<open>acceptRanges\<close>
    turned into comparisons on the first byte: the rune and its width in bytes, and
    \<open>(RuneError, 1)\<close> for a byte sequence that is not well-formed UTF-8;
  \<^item> the conversion \<^verbatim>\<open>string(r)\<close> of a rune: its UTF-8 encoding, and that of
    \<open>RuneError\<close> for a surrogate or a value above \<^verbatim>\<open>0x10FFFF\<close>;
  \<^item> \<^verbatim>\<open>unicode.ToTitle\<close> and \<^verbatim>\<open>unicode.ToUpper\<close>, with the function \<^verbatim>\<open>to\<close> they share
    (named \<open>to_case\<close> here). The table \<^verbatim>\<open>unicode.CaseRanges\<close> is their parameter
    \<open>caseRange\<close>; \<^verbatim>\<open>to\<close> searches it by bisection, and since the table is sorted and
    its ranges are disjoint, that finds the one range that holds the rune, if any.
\<close>

definition RuneError :: nat where
  "RuneError = 0xFFFD"

definition DecodeRuneInString :: "string \<Rightarrow> nat \<times> nat" where
  "DecodeRuneInString s =
     (if length s < 1 then (RuneError, 0)
      else
        (let s0 = of_char (s ! 0) :: nat in
         if s0 < 0x80 then (s0, 1)
         else if s0 < 0xC2 \<or> 0xF4 < s0 then (RuneError, 1)
         else
           (let sz = (if s0 < 0xE0 then 2 else if s0 < 0xF0 then 3 else 4 :: nat);
                lo = (if s0 = 0xE0 then 0xA0 else if s0 = 0xF0 then 0x90 else 0x80 :: nat);
                hi = (if s0 = 0xED then 0x9F else if s0 = 0xF4 then 0x8F else 0xBF :: nat)
            in
            if length s < sz then (RuneError, 1)
            else
              (let s1 = of_char (s ! 1) :: nat in
               if s1 < lo \<or> hi < s1 then (RuneError, 1)
               else if sz \<le> 2 then ((s0 mod 0x20) * 0x40 + s1 mod 0x40, 2)
               else
                 (let s2 = of_char (s ! 2) :: nat in
                  if s2 < 0x80 \<or> 0xBF < s2 then (RuneError, 1)
                  else if sz \<le> 3 then
                    ((s0 mod 0x10) * 0x1000 + (s1 mod 0x40) * 0x40 + s2 mod 0x40, 3)
                  else
                    (let s3 = of_char (s ! 3) :: nat in
                     if s3 < 0x80 \<or> 0xBF < s3 then (RuneError, 1)
                     else
                       ((s0 mod 0x08) * 0x40000 + (s1 mod 0x40) * 0x1000
                          + (s2 mod 0x40) * 0x40 + s3 mod 0x40, 4)))))))"

definition rune_string :: "nat \<Rightarrow> string" where
  "rune_string r =
     (if r \<le> 0x7F then [char_of r]
      else if r \<le> 0x7FF then [char_of (0xC0 + r div 0x40), char_of (0x80 + r mod 0x40)]
      else if 0x10FFFF < r \<or> (0xD800 \<le> r \<and> r \<le> 0xDFFF) then
        [CHR 0xEF, CHR 0xBF, CHR 0xBD]
      else if r \<le> 0xFFFF then
        [char_of (0xE0 + r div 0x1000), char_of (0x80 + (r div 0x40) mod 0x40),
         char_of (0x80 + r mod 0x40)]
      else
        [char_of (0xF0 + r div 0x40000), char_of (0x80 + (r div 0x1000) mod 0x40),
         char_of (0x80 + (r div 0x40) mod 0x40), char_of (0x80 + r mod 0x40)])"

text \<open>
  \<^verbatim>\<open>type CaseRange struct { Lo, Hi uint32; Delta d }\<close>, where \<^verbatim>\<open>d\<close> holds the deltas
  for upper, lower and title case, in this order.
\<close>

record CaseRange =
  Lo :: nat
  Hi :: nat
  Delta :: "int \<times> int \<times> int"

definition MaxRune :: nat where
  "MaxRune = 0x10FFFF"

definition UpperCase :: nat where
  "UpperCase = 0"

definition LowerCase :: nat where
  "LowerCase = 1"

definition TitleCase :: nat where
  "TitleCase = 2"

definition MaxCase :: nat where
  "MaxCase = 3"

definition UpperLower :: int where
  "UpperLower = int MaxRune + 1"

text \<open>\<^verbatim>\<open>cr.Delta[_case]\<close>\<close>

fun delta_at :: "int \<times> int \<times> int \<Rightarrow> nat \<Rightarrow> int" where
  "delta_at (u, l, t) c = (if c = 0 then u else if c = 1 then l else t)"

text \<open>
  \<^verbatim>\<open>to(_case, r, caseRange)\<close>, its first result. A delta above \<open>MaxRune\<close> marks a
  sequence of alternating upper and lower case letters, in which the low bit of the
  offset is cleared and then set from the low bit of the case.
\<close>

definition to_case :: "nat \<Rightarrow> nat \<Rightarrow> CaseRange list \<Rightarrow> nat" where
  "to_case c r caseRange =
     (if MaxCase \<le> c then RuneError
      else
        (case find (\<lambda>cr. Lo cr \<le> r \<and> r \<le> Hi cr) caseRange of
           None \<Rightarrow> r
         | Some cr \<Rightarrow>
             (let delta = delta_at (Delta cr) c in
              if delta > int MaxRune then Lo cr + ((r - Lo cr) div 2 * 2 + c mod 2)
              else nat (int r + delta))))"

definition ToTitle :: "CaseRange list \<Rightarrow> nat \<Rightarrow> nat" where
  "ToTitle caseRange r =
     (if r \<le> 0x7F then (if 0x61 \<le> r \<and> r \<le> 0x7A then r - (0x61 - 0x41) else r)
      else to_case TitleCase r caseRange)"

definition ToUpper :: "CaseRange list \<Rightarrow> nat \<Rightarrow> nat" where
  "ToUpper caseRange r =
     (if r \<le> 0x7F then (if 0x61 \<le> r \<and> r \<le> 0x7A then r - (0x61 - 0x41) else r)
      else to_case UpperCase r caseRange)"

definition capitalize :: "CaseRange list \<Rightarrow> string \<Rightarrow> string" where
  "capitalize caseRange s =
     (if s = [] then s
      else (case DecodeRuneInString s of (r, n) \<Rightarrow> rune_string (ToTitle caseRange r) @ drop n s))"

text \<open>
  Entries of \<^verbatim>\<open>unicode.CaseRanges\<close>: those for the letters up to \<^verbatim>\<open>U+012F\<close> (ASCII,
  the micro sign, Latin-1, the first run of Latin Extended-A) and those for the digraph
  letters \<^verbatim>\<open>U+01C4\<close> to \<^verbatim>\<open>U+01CC\<close>, each of which has an upper case, a title case and a
  lower case form. The table of the library has further entries, for other runes; for a
  rune in one of the ranges below it gives what this list gives.
\<close>

definition CaseRanges_Latin :: "CaseRange list" where
  "CaseRanges_Latin =
     [\<lparr>Lo = 0x0041, Hi = 0x005A, Delta = (0, 32, 0)\<rparr>,
      \<lparr>Lo = 0x0061, Hi = 0x007A, Delta = (- 32, 0, - 32)\<rparr>,
      \<lparr>Lo = 0x00B5, Hi = 0x00B5, Delta = (743, 0, 743)\<rparr>,
      \<lparr>Lo = 0x00C0, Hi = 0x00D6, Delta = (0, 32, 0)\<rparr>,
      \<lparr>Lo = 0x00D8, Hi = 0x00DE, Delta = (0, 32, 0)\<rparr>,
      \<lparr>Lo = 0x00E0, Hi = 0x00F6, Delta = (- 32, 0, - 32)\<rparr>,
      \<lparr>Lo = 0x00F8, Hi = 0x00FE, Delta = (- 32, 0, - 32)\<rparr>,
      \<lparr>Lo = 0x00FF, Hi = 0x00FF, Delta = (121, 0, 121)\<rparr>,
      \<lparr>Lo = 0x0100, Hi = 0x012F, Delta = (UpperLower, UpperLower, UpperLower)\<rparr>,
      \<lparr>Lo = 0x01C4, Hi = 0x01C4, Delta = (0, 2, 1)\<rparr>,
      \<lparr>Lo = 0x01C5, Hi = 0x01C5, Delta = (- 1, 1, 0)\<rparr>,
      \<lparr>Lo = 0x01C6, Hi = 0x01C6, Delta = (- 2, 0, - 1)\<rparr>,
      \<lparr>Lo = 0x01C7, Hi = 0x01C7, Delta = (0, 2, 1)\<rparr>,
      \<lparr>Lo = 0x01C8, Hi = 0x01C8, Delta = (- 1, 1, 0)\<rparr>,
      \<lparr>Lo = 0x01C9, Hi = 0x01C9, Delta = (- 2, 0, - 1)\<rparr>,
      \<lparr>Lo = 0x01CA, Hi = 0x01CA, Delta = (0, 2, 1)\<rparr>,
      \<lparr>Lo = 0x01CB, Hi = 0x01CB, Delta = (- 1, 1, 0)\<rparr>,
      \<lparr>Lo = 0x01CC, Hi = 0x01CC, Delta = (- 2, 0, - 1)\<rparr>]"

section \<open>executeGoCommand\<close>

text \<open>
  The calls \<^verbatim>\<open>executeGoCommand\<close> makes on packages \<^verbatim>\<open>os/exec\<close>, \<^verbatim>\<open>fmt\<close> and \<^verbatim>\<open>io\<close>, in
  program order. What the three fallible calls return is given by \<open>exec_results\<close>:
  \<open>None\<close> is a \<^verbatim>\<open>nil\<close> error, \<open>Some msg\<close> an error that prints as \<open>msg\<close>.
\<close>

datatype call =
    exec_Command string "string list"
  | StdoutPipe
  | StderrPipe
  | Start
  | Println string
  | go_Copy writer
  | Wait

record exec_results =
  StdoutPipe_err :: "string option"
  StderrPipe_err :: "string option"
  Start_err :: "string option"

text \<open>\<^verbatim>\<open>if err != nil { fmt.Println(err) }\<close>\<close>

fun report :: "string option \<Rightarrow> call list" where
  "report None = []"
| "report (Some msg) = [Println msg]"

definition executeGoCommand :: "exec_results \<Rightarrow> string list \<Rightarrow> call list" where
  "executeGoCommand x args =
     [exec_Command ''go'' args]
     @ [StdoutPipe] @ report (StdoutPipe_err x)
     @ [StderrPipe] @ report (StderrPipe_err x)
     @ [Start] @ report (Start_err x)
     @ [go_Copy os_Stdout]
     @ [go_Copy os_Stderr]
     @ [Wait]"

text \<open>
  The last three statements, \<^verbatim>\<open>go io.Copy(os.Stdout, stdout)\<close>,
  \<^verbatim>\<open>go io.Copy(os.Stderr, stderr)\<close> and \<^verbatim>\<open>cmdExec.Wait()\<close>, after a successful
  \<^verbatim>\<open>Start\<close>: four parties run concurrently, the child, the two copying goroutines
  and the caller blocked in \<^verbatim>\<open>Wait\<close>. A state holds what the child still has to do,
  the bytes written to each pipe and not yet read, whether the child has exited, the
  bytes copied to each stream of the caller, and whether \<^verbatim>\<open>Wait\<close> (and with it
  \<^verbatim>\<open>executeGoCommand\<close>) has returned.
\<close>

datatype child_op = write_stdout string | write_stderr string

record relay =
  child :: "child_op list"
  exited :: bool
  stdout_pipe :: string
  stderr_pipe :: string
  copied_stdout :: string
  copied_stderr :: string
  returned :: bool

definition relay_start :: "child_op list \<Rightarrow> relay" where
  "relay_start ops =
     \<lparr>child = ops, exited = False, stdout_pipe = [], stderr_pipe = [],
      copied_stdout = [], copied_stderr = [], returned = False\<rparr>"

text \<open>
  One step of one party. \<open>Child\<close>: the child performs its next write, or exits when
  none is left. \<open>Copy w\<close>: the goroutine for \<open>w\<close> reads what its pipe holds and writes
  it to the caller's stream; once \<^verbatim>\<open>Wait\<close> has returned the pipe is closed and nothing
  more is read. \<open>Wait_returns\<close>: \<^verbatim>\<open>Wait\<close> returns as soon as the child has exited; the
  code has no other condition on returning. A step that is not enabled is \<open>None\<close>.
\<close>

datatype party = Child | Copy writer | Wait_returns

fun relay_step :: "party \<Rightarrow> relay \<Rightarrow> relay option" where
  "relay_step Child s =
     (if exited s then None
      else case child s of
        [] \<Rightarrow> Some (s\<lparr>exited := True\<rparr>)
      | write_stdout b # ops \<Rightarrow> Some (s\<lparr>child := ops, stdout_pipe := stdout_pipe s @ b\<rparr>)
      | write_stderr b # ops \<Rightarrow> Some (s\<lparr>child := ops, stderr_pipe := stderr_pipe s @ b\<rparr>))"
| "relay_step (Copy os_Stdout) s =
     (if returned s \<or> stdout_pipe s = [] then None
      else Some (s\<lparr>copied_stdout := copied_stdout s @ stdout_pipe s, stdout_pipe := []\<rparr>))"
| "relay_step (Copy os_Stderr) s =
     (if returned s \<or> stderr_pipe s = [] then None
      else Some (s\<lparr>copied_stderr := copied_stderr s @ stderr_pipe s, stderr_pipe := []\<rparr>))"
| "relay_step Wait_returns s =
     (if exited s \<and> \<not> returned s then Some (s\<lparr>returned := True\<rparr>) else None)"

text \<open>A schedule: the parties in the order in which they take their steps.\<close>

fun relay_run :: "party list \<Rightarrow> relay \<Rightarrow> relay option" where
  "relay_run [] s = Some s"
| "relay_run (a # as) s = (case relay_step a s of None \<Rightarrow> None | Some s' \<Rightarrow> relay_run as s')"

section \<open>Notions used to state the properties\<close>

text \<open>The message of \<^verbatim>\<open>main\<close> for an unknown subcommand.\<close>

definition unknown_subcommand :: "'w env \<Rightarrow> string \<Rightarrow> string" where
  "unknown_subcommand e a =
     ''gpm: unknown subcommand '' @ fmt_q e a @ ''\<newline>Run 'gpm help' for usage.\<newline>''"

text \<open>The two messages of \<^verbatim>\<open>help\<close>.\<close>

definition too_many_arguments :: string where
  "too_many_arguments = ''usage: gpm help command\<newline>\<newline>Too many arguments given.\<newline>''"

definition unknown_help_topic :: "'w env \<Rightarrow> string \<Rightarrow> string" where
  "unknown_help_topic e arg =
     ''Unknown help topic '' @ fmt_sharp_q e arg @ ''.  Run 'gpm help'.\<newline>''"

text \<open>The condition under which the loop of \<^verbatim>\<open>main\<close> runs a command for \<^verbatim>\<open>args[0] = a\<close>.\<close>

definition selects :: "string \<Rightarrow> 'w Command \<Rightarrow> bool" where
  "selects a cmd = (Name cmd = a \<and> Run cmd \<noteq> None)"

text \<open>
  The process with which \<^verbatim>\<open>main\<close> enters \<^verbatim>\<open>exit()\<close> for the arguments \<open>a # rest\<close>, stated
  with a lookup of the first command that \<open>a\<close> selects: after its handler, or after
  the report of an unknown subcommand and \<^verbatim>\<open>setExitStatus(2)\<close>. Lemma \<open>dispatch_exit\<close>
  relates it to the loop of \<^verbatim>\<open>main\<close>.
\<close>

definition shutdown_entry :: "'w env \<Rightarrow> string \<Rightarrow> string list \<Rightarrow> 'w proc \<Rightarrow> 'w proc" where
  "shutdown_entry e a rest p =
     (case find (selects a) (commands e) of
        None \<Rightarrow> p\<lparr>vars := setExitStatus 2 (Fprintf os_Stderr (unknown_subcommand e a) (vars p))\<rparr>
      | Some c \<Rightarrow> the (Run c) (cmd_text.truncate c) rest p)"

text \<open>
  What holds of the shared state after any schedule started by \<open>calls_start v ns\<close>: the
  arguments stay \<open>ns\<close>; every call past \<^verbatim>\<open>Lock\<close> is recorded in \<open>acquired\<close>; only the holder
  of the mutex is in its critical section; while the mutex is free the variables are
  those that the bodies of the calls in \<open>acquired\<close>, run one after another, produce; and
  the holder has done the part of its body that its point says.
\<close>

definition calls_inv :: "'w vars \<Rightarrow> int list \<Rightarrow> 'w shared \<Rightarrow> bool" where
  "calls_inv v ns s =
     (map status_arg (callers s) = ns
      \<and> set (acquired s) \<subseteq> set ns
      \<and> (\<forall>j < length ns. point (callers s ! j) \<noteq> at_Lock \<longrightarrow> ns ! j \<in> set (acquired s))
      \<and> (\<forall>j < length ns. critical (callers s ! j) \<longrightarrow> exitMu s = Some j)
      \<and> (exitMu s = None \<longrightarrow> globals s = fold setExitStatus (acquired s) v)
      \<and> (\<forall>i. exitMu s = Some i \<longrightarrow>
            i < length ns \<and> critical (callers s ! i)
            \<and> acquired s \<noteq> [] \<and> last (acquired s) = ns ! i
            \<and> (point (callers s ! i) = at_test \<longrightarrow>
                  globals s = fold setExitStatus (butlast (acquired s)) v)
            \<and> (point (callers s ! i) = at_store \<longrightarrow>
                  globals s = fold setExitStatus (butlast (acquired s)) v
                  \<and> exitStatus (globals s) < ns ! i)
            \<and> (point (callers s ! i) = at_Unlock \<longrightarrow>
                  globals s = fold setExitStatus (acquired s) v)))"

section \<open>Example values\<close>

text \<open>
  Concrete commands, environments and processes at which the theorems below are
  evaluated. The outside world of the examples is a log of strings.
\<close>

definition topic :: "string \<Rightarrow> string list Command" where
  "topic line = \<lparr>UsageLine = line, Short = [], Long = [], Flags = Map.empty, Run = None\<rparr>"

text \<open>A handler that logs its command's usage line and raises the status to 1.\<close>

definition logging_handler :: "cmd_text \<Rightarrow> string list \<Rightarrow> string list proc \<Rightarrow> string list proc" where
  "logging_handler c args p =
     p\<lparr>vars := setExitStatus 1 ((vars p)\<lparr>other := other (vars p) @ [UsageLine c]\<rparr>)\<rparr>"

definition runnable :: "string \<Rightarrow> string list Command" where
  "runnable line =
     \<lparr>UsageLine = line, Short = [], Long = [], Flags = Map.empty, Run = Some logging_handler\<rparr>"

text \<open>
  An environment in which initialization succeeds and changes nothing, a template
  renders as its own text, and the two quoting verbs put their argument between
  double quotes and between back quotes.
\<close>

definition example_env :: "string list Command list \<Rightarrow> string list env" where
  "example_env cmds =
     \<lparr>initialize = (\<lambda>v. (v, True)),
      commands = cmds,
      usageTemplate = ''usage'',
      template = (\<lambda>text data. (text, True)),
      fmt_q = (\<lambda>s. [CHR 0x22] @ s @ [CHR 0x22]),
      fmt_sharp_q = (\<lambda>s. [CHR 0x60] @ s @ [CHR 0x60])\<rparr>"

text \<open>A cleanup action that appends \<open>cleanup\<close> to the log, and a process that registered it.\<close>

definition log_cleanup :: "string list vars \<Rightarrow> string list vars" where
  "log_cleanup v = v\<lparr>other := other v @ [''cleanup'']\<rparr>"

definition example_proc :: "string list proc" where
  "example_proc = atexit log_cleanup (init_proc [])"

text \<open>
  Two calls, \<^verbatim>\<open>setExitStatus(2)\<close> and \<^verbatim>\<open>setExitStatus(1)\<close>: the shared state after both
  have returned, and after the first has locked the mutex and made its test.
\<close>

definition example_calls_end :: "unit shared" where
  "example_calls_end =
     \<lparr>globals = (init_vars ())\<lparr>exitStatus := 2\<rparr>, exitMu = None,
      callers = [\<lparr>point = returned_call, status_arg = 2\<rparr>, \<lparr>point = returned_call, status_arg = 1\<rparr>],
      acquired = [2, 1]\<rparr>"

definition example_calls_middle :: "unit shared" where
  "example_calls_middle =
     \<lparr>globals = init_vars (), exitMu = Some 0,
      callers = [\<lparr>point = at_store, status_arg = 2\<rparr>, \<lparr>point = at_Lock, status_arg = 1\<rparr>],
      acquired = [2]\<rparr>"

section \<open>Properties of Command.Name\<close>

lemma IndexByte_ge: "IndexByte s c \<ge> - 1"
  by (induction s) (auto simp: Let_def)

lemma take_IndexByte:
  "(if IndexByte s c \<ge> 0 then take (nat (IndexByte s c)) s else s) = takeWhile (\<lambda>x. x \<noteq> c) s"
proof (induction s)
  case Nil
  show ?case by simp
next
  case (Cons x xs)
  show ?case
  proof (cases "x = c")
    case True
    then show ?thesis by simp
  next
    case False
    show ?thesis
    proof (cases "IndexByte xs c < 0")
      case True
      with Cons \<open>x \<noteq> c\<close> show ?thesis by (simp add: Let_def)
    next
      case nonneg: False
      then have "nat (IndexByte xs c + 1) = Suc (nat (IndexByte xs c))"
        by linarith
      with Cons nonneg \<open>x \<noteq> c\<close> show ?thesis by (simp add: Let_def)
    qed
  qed
qed

lemma Name_takeWhile: "Name c = takeWhile (\<lambda>x. x \<noteq> CHR '' '') (UsageLine c)"
  unfolding Name_def Let_def by (rule take_IndexByte)

lemma Name_before_space:
  assumes "UsageLine c = pre @ CHR '' '' # post" and "CHR '' '' \<notin> set pre"
  shows "Name c = pre"
proof -
  have "takeWhile (\<lambda>x. x \<noteq> CHR '' '') (pre @ CHR '' '' # post) = pre"
    using assms(2) by (induction pre) auto
  with assms(1) show ?thesis by (simp only: Name_takeWhile)
qed

lemma Name_no_space:
  assumes "CHR '' '' \<notin> set (UsageLine c)"
  shows "Name c = UsageLine c"
proof -
  have "takeWhile (\<lambda>x. x \<noteq> CHR '' '') s = s" if "CHR '' '' \<notin> set s" for s :: string
    using that by (induction s) auto
  with assms show ?thesis by (simp only: Name_takeWhile)
qed

lemma Name_idem: "Name (c\<lparr>UsageLine := Name c\<rparr>) = Name c"
  by (simp add: Name_takeWhile)

text \<open>
  Claim C6. The name of a command is the part of its usage line before the first
  space, and the whole usage line when it has no space: the name of
  \<open>build [flags] <pkg>\<close> is \<open>build\<close>, that of \<open>foo\<close> is \<open>foo\<close>. Deriving the name
  of a name gives the name again.
\<close>

theorem Name_derivation:
  "Name c = takeWhile (\<lambda>x. x \<noteq> CHR '' '') (UsageLine c)
   \<and> (CHR '' '' \<notin> set (UsageLine c) \<longrightarrow> Name c = UsageLine c)
   \<and> (\<forall>pre post. UsageLine c = pre @ CHR '' '' # post \<and> CHR '' '' \<notin> set pre \<longrightarrow> Name c = pre)
   \<and> Name (c\<lparr>UsageLine := ''build [flags] <pkg>''\<rparr>) = ''build''
   \<and> Name (c\<lparr>UsageLine := ''foo''\<rparr>) = ''foo''
   \<and> Name (c\<lparr>UsageLine := Name c\<rparr>) = Name c"
proof (intro conjI allI impI)
  show "Name c = takeWhile (\<lambda>x. x \<noteq> CHR '' '') (UsageLine c)"
    by (rule Name_takeWhile)
  show "Name c = UsageLine c" if "CHR '' '' \<notin> set (UsageLine c)"
    using that by (rule Name_no_space)
  show "Name c = pre" if "UsageLine c = pre @ CHR '' '' # post \<and> CHR '' '' \<notin> set pre" for pre post
    using that Name_before_space by blast
  show "Name (c\<lparr>UsageLine := ''build [flags] <pkg>''\<rparr>) = ''build''"
    by (simp add: Name_takeWhile)
  show "Name (c\<lparr>UsageLine := ''foo''\<rparr>) = ''foo''"
    by (simp add: Name_takeWhile)
  show "Name (c\<lparr>UsageLine := Name c\<rparr>) = Name c"
    by (rule Name_idem)
qed

theorem Name_derivation_witness:
  "CHR '' '' \<notin> set ''foo''
   \<and> Name (topic ''foo'') = ''foo''
   \<and> Name (topic ''get -u pkg'') = ''get''"
proof -
  have "UsageLine (topic ''get -u pkg'') = ''get'' @ CHR '' '' # ''-u pkg'' \<and> CHR '' '' \<notin> set ''get''"
    by (simp add: topic_def)
  then have "Name (topic ''get -u pkg'') = ''get''"
    using Name_derivation [of "topic ''get -u pkg''"] by blast
  moreover have "CHR '' '' \<notin> set (UsageLine (topic ''foo''))"
    by (simp add: topic_def)
  then have "Name (topic ''foo'') = UsageLine (topic ''foo'')"
    using Name_derivation [of "topic ''foo''"] by blast
  ultimately show ?thesis by (simp add: topic_def)
qed

text \<open>
  Claim C10. A command whose usage line begins with a space has the empty name, so no
  non-empty first argument equals its name: the loops of \<^verbatim>\<open>main\<close> and of \<^verbatim>\<open>help\<close> pass
  over it.
\<close>

theorem Name_leading_space:
  assumes "UsageLine cmd = CHR '' '' # line"
  shows "Name cmd = []
    \<and> (\<forall>a. a \<noteq> [] \<longrightarrow>
          Name cmd \<noteq> a
          \<and> dispatch e (cmd # cmds) i a rest p = dispatch e cmds (Suc i) a rest p
          \<and> help_topic e (cmd # cmds) a p = help_topic e cmds a p)"
  using assms by (simp add: Name_takeWhile)

theorem Name_leading_space_witness:
  "UsageLine (topic '' build'') = CHR '' '' # ''build''
   \<and> Name (topic '' build'') = []
   \<and> Name (topic '' build'') \<noteq> ''build''"
proof -
  have h: "UsageLine (topic '' build'') = CHR '' '' # ''build''"
    by (simp add: topic_def)
  have "Name (topic '' build'') = []"
    by (rule Name_leading_space [OF h, THEN conjunct1])
  with h show ?thesis by simp
qed

section \<open>Properties of the exit status\<close>

lemma setExitStatus_max: "exitStatus (setExitStatus n v) = max (exitStatus v) n"
  by (simp add: setExitStatus_def)

lemma fold_setExitStatus_max:
  "exitStatus (fold setExitStatus ns v) = fold max ns (exitStatus v)"
  by (induction ns arbitrary: v) (simp_all add: setExitStatus_max max.commute)

lemma fold_setExitStatus_Max:
  "exitStatus (fold setExitStatus ns v) = Max (insert (exitStatus v) (set ns))"
  using Max.set_eq_fold [of "exitStatus v" ns] by (simp add: fold_setExitStatus_max)

lemma fold_setExitStatus_mono:
  "exitStatus v \<le> exitStatus (fold setExitStatus ns v)"
  by (simp add: fold_setExitStatus_Max)

lemma calls_inv_start: "calls_inv v ns (calls_start v ns)"
  by (simp add: calls_inv_def calls_start_def critical_def comp_def)


lemma status_arg_update:
  "i < length cs \<Longrightarrow> map status_arg (cs[i := (cs ! i)\<lparr>point := q\<rparr>]) = map status_arg cs"
  by (rule nth_equalityI) (simp_all add: nth_list_update)

lemma fold_butlast_last:
  "hs \<noteq> [] \<Longrightarrow> fold setExitStatus hs v = setExitStatus (last hs) (fold setExitStatus (butlast hs) v)"
proof -
  assume "hs \<noteq> []"
  then have "hs = butlast hs @ [last hs]" by simp
  then have "fold setExitStatus hs v = fold setExitStatus (butlast hs @ [last hs]) v" by simp
  then show ?thesis by (simp only: fold_append fold_simps comp_apply id_apply)
qed

lemma call_step_Lock:
  assumes "i < length (callers s)" "point (callers s ! i) = at_Lock"
  shows "call_step i s =
     (if exitMu s = None then
        Some (s\<lparr>exitMu := Some i,
                callers := (callers s)[i := (callers s ! i)\<lparr>point := at_test\<rparr>],
                acquired := acquired s @ [status_arg (callers s ! i)]\<rparr>)
      else None)"
  using assms by (simp add: call_step_def Let_def)

lemma call_step_test:
  assumes "i < length (callers s)" "point (callers s ! i) = at_test"
  shows "call_step i s =
     Some (s\<lparr>callers := (callers s)[i := (callers s ! i)\<lparr>point :=
             (if exitStatus (globals s) < status_arg (callers s ! i) then at_store else at_Unlock)\<rparr>]\<rparr>)"
  using assms by (simp add: call_step_def Let_def)

lemma call_step_store:
  assumes "i < length (callers s)" "point (callers s ! i) = at_store"
  shows "call_step i s =
     Some (s\<lparr>globals := (globals s)\<lparr>exitStatus := status_arg (callers s ! i)\<rparr>,
             callers := (callers s)[i := (callers s ! i)\<lparr>point := at_Unlock\<rparr>]\<rparr>)"
  using assms by (simp add: call_step_def Let_def)

lemma call_step_Unlock:
  assumes "i < length (callers s)" "point (callers s ! i) = at_Unlock"
  shows "call_step i s =
     Some (s\<lparr>exitMu := None, callers := (callers s)[i := (callers s ! i)\<lparr>point := returned_call\<rparr>]\<rparr>)"
  using assms by (simp add: call_step_def Let_def)

lemma call_step_none:
  "length (callers s) \<le> i \<or> point (callers s ! i) = returned_call \<Longrightarrow> call_step i s = None"
  by (auto simp: call_step_def Let_def)

lemma calls_invD:
  assumes "calls_inv v ns s"
  shows "map status_arg (callers s) = ns"
    and "set (acquired s) \<subseteq> set ns"
    and "\<And>j. j < length ns \<Longrightarrow> point (callers s ! j) \<noteq> at_Lock \<Longrightarrow> ns ! j \<in> set (acquired s)"
    and "\<And>j. j < length ns \<Longrightarrow> critical (callers s ! j) \<Longrightarrow> exitMu s = Some j"
    and "exitMu s = None \<Longrightarrow> globals s = fold setExitStatus (acquired s) v"
    and "\<And>i. exitMu s = Some i \<Longrightarrow> i < length ns \<and> critical (callers s ! i)
            \<and> acquired s \<noteq> [] \<and> last (acquired s) = ns ! i"
    and "\<And>i. exitMu s = Some i \<Longrightarrow> point (callers s ! i) = at_test \<Longrightarrow>
            globals s = fold setExitStatus (butlast (acquired s)) v"
    and "\<And>i. exitMu s = Some i \<Longrightarrow> point (callers s ! i) = at_store \<Longrightarrow>
            globals s = fold setExitStatus (butlast (acquired s)) v
            \<and> exitStatus (globals s) < ns ! i"
    and "\<And>i. exitMu s = Some i \<Longrightarrow> point (callers s ! i) = at_Unlock \<Longrightarrow>
            globals s = fold setExitStatus (acquired s) v"
  using assms unfolding calls_inv_def by blast+

lemma inv_Lock:
  assumes inv: "calls_inv v ns s" and i: "i < length (callers s)"
    and pt: "point (callers s ! i) = at_Lock" and free: "exitMu s = None"
  shows "calls_inv v ns
     (s\<lparr>exitMu := Some i,
        callers := (callers s)[i := (callers s ! i)\<lparr>point := at_test\<rparr>],
        acquired := acquired s @ [status_arg (callers s ! i)]\<rparr>)"
proof -
  note d = calls_invD [OF inv]
  have len: "length (callers s) = length ns" using d(1) by (metis length_map)
  have a: "status_arg (callers s ! i) = ns ! i" using d(1) i by (metis nth_map)
  have nocrit: "\<not> critical (callers s ! j)" if "j < length ns" for j
    using d(4) [OF that] free by auto
  have g: "globals s = fold setExitStatus (acquired s) v" using d(5) free by blast
  let ?s' = "s\<lparr>exitMu := Some i,
        callers := (callers s)[i := (callers s ! i)\<lparr>point := at_test\<rparr>],
        acquired := acquired s @ [status_arg (callers s ! i)]\<rparr>"
  have c1: "map status_arg (callers ?s') = ns"
    using i d(1) by (simp add: status_arg_update)
  have c2: "set (acquired ?s') \<subseteq> set ns"
    using d(2) i len by (simp add: a)
  have c3: "ns ! j \<in> set (acquired ?s')" if "j < length ns" "point (callers ?s' ! j) \<noteq> at_Lock" for j
  proof (cases "j = i")
    case True
    then show ?thesis by (simp add: a)
  next
    case False
    with that have "point (callers s ! j) \<noteq> at_Lock" by simp
    with d(3) that(1) show ?thesis by simp
  qed
  have c4: "exitMu ?s' = Some j" if "j < length ns" "critical (callers ?s' ! j)" for j
  proof (cases "j = i")
    case True
    then show ?thesis by simp
  next
    case False
    with that have "critical (callers s ! j)" by simp
    with nocrit that(1) show ?thesis by blast
  qed
  have c6: "i < length ns \<and> critical (callers ?s' ! i) \<and> acquired ?s' \<noteq> []
      \<and> last (acquired ?s') = ns ! i
      \<and> globals ?s' = fold setExitStatus (butlast (acquired ?s')) v
      \<and> point (callers ?s' ! i) = at_test"
    using i len g by (simp add: a critical_def)
  show ?thesis
    unfolding calls_inv_def
  proof (intro conjI allI impI)
    show "map status_arg (callers ?s') = ns" by (rule c1)
    show "set (acquired ?s') \<subseteq> set ns" by (rule c2)
    show "ns ! j \<in> set (acquired ?s')" if "j < length ns" "point (callers ?s' ! j) \<noteq> at_Lock" for j
      using that by (rule c3)
    show "exitMu ?s' = Some j" if "j < length ns" "critical (callers ?s' ! j)" for j
      using that by (rule c4)
    show "globals ?s' = fold setExitStatus (acquired ?s') v" if "exitMu ?s' = None"
      using that by simp
  next
    fix k assume k: "exitMu ?s' = Some k"
    then have ki: "k = i" by simp
    show "k < length ns" using c6 ki by blast
    show "critical (callers ?s' ! k)" using c6 ki by blast
    show "acquired ?s' \<noteq> []" using c6 by blast
    show "last (acquired ?s') = ns ! k" using c6 ki by blast
    show "globals ?s' = fold setExitStatus (butlast (acquired ?s')) v"
      using c6 by blast
    show "globals ?s' = fold setExitStatus (butlast (acquired ?s')) v"
      using c6 by blast
    show "exitStatus (globals ?s') < ns ! k" if "point (callers ?s' ! k) = at_store"
      using that c6 ki by simp
    show "globals ?s' = fold setExitStatus (acquired ?s') v" if "point (callers ?s' ! k) = at_Unlock"
      using that c6 ki by simp
  qed
qed


lemma inv_test:
  assumes inv: "calls_inv v ns s" and i: "i < length (callers s)"
    and pt: "point (callers s ! i) = at_test"
  shows "calls_inv v ns
     (s\<lparr>callers := (callers s)[i := (callers s ! i)\<lparr>point :=
         (if exitStatus (globals s) < status_arg (callers s ! i) then at_store else at_Unlock)\<rparr>]\<rparr>)"
proof -
  note d = calls_invD [OF inv]
  have len: "length (callers s) = length ns" using d(1) by (metis length_map)
  have a: "status_arg (callers s ! i) = ns ! i" using d(1) i by (metis nth_map)
  have crit: "critical (callers s ! i)" using pt by (simp add: critical_def)
  have mu: "exitMu s = Some i" using d(4) [of i] i len crit by simp
  have h: "acquired s \<noteq> []" "last (acquired s) = ns ! i" using d(6) [OF mu] by blast+
  have g: "globals s = fold setExitStatus (butlast (acquired s)) v" using d(7) [OF mu pt] .
  have full: "fold setExitStatus (acquired s) v = setExitStatus (ns ! i) (globals s)"
    using fold_butlast_last [OF h(1), of v] h(2) g by simp
  define q where "q = (if exitStatus (globals s) < status_arg (callers s ! i) then at_store else at_Unlock)"
  let ?s' = "s\<lparr>callers := (callers s)[i := (callers s ! i)\<lparr>point := q\<rparr>]\<rparr>"
  have q: "q = at_store \<or> q = at_Unlock" by (simp add: q_def)
  have pi: "point (callers ?s' ! i) = q" using i by simp
  have c1: "map status_arg (callers ?s') = ns"
    using i d(1) by (simp add: status_arg_update)
  have c3: "ns ! j \<in> set (acquired ?s')" if "j < length ns" "point (callers ?s' ! j) \<noteq> at_Lock" for j
  proof (cases "j = i")
    case True
    with d(3) [of i] pt i len show ?thesis by simp
  next
    case False
    with that have "point (callers s ! j) \<noteq> at_Lock" by simp
    with d(3) that(1) show ?thesis by simp
  qed
  have c4: "exitMu ?s' = Some j" if "j < length ns" "critical (callers ?s' ! j)" for j
  proof (cases "j = i")
    case True
    with mu show ?thesis by simp
  next
    case False
    with that have "critical (callers s ! j)" by simp
    with d(4) that(1) show ?thesis by simp
  qed
  have store: "exitStatus (globals s) < ns ! i" if "q = at_store"
    using that by (simp add: q_def a split: if_splits)
  have unlock: "globals ?s' = fold setExitStatus (acquired ?s') v" if "q = at_Unlock"
  proof -
    from that have "\<not> exitStatus (globals s) < ns ! i"
      by (simp add: q_def a split: if_splits)
    then have "setExitStatus (ns ! i) (globals s) = globals s"
      by (simp add: setExitStatus_def)
    with full show ?thesis by simp
  qed
  have "calls_inv v ns ?s'"
    unfolding calls_inv_def
  proof (intro conjI allI impI)
    show "map status_arg (callers ?s') = ns" by (rule c1)
    show "set (acquired ?s') \<subseteq> set ns" using d(2) by simp
    show "ns ! j \<in> set (acquired ?s')" if "j < length ns" "point (callers ?s' ! j) \<noteq> at_Lock" for j
      using that by (rule c3)
    show "exitMu ?s' = Some j" if "j < length ns" "critical (callers ?s' ! j)" for j
      using that by (rule c4)
    show "globals ?s' = fold setExitStatus (acquired ?s') v" if "exitMu ?s' = None"
      using that mu by simp
  next
    fix k assume k: "exitMu ?s' = Some k"
    with mu have ki: "k = i" by simp
    show "k < length ns" using ki i len by simp
    show "critical (callers ?s' ! k)" using ki pi q by (auto simp: critical_def)
    show "acquired ?s' \<noteq> []" using h(1) by simp
    show "last (acquired ?s') = ns ! k" using h(2) ki by simp
    show "globals ?s' = fold setExitStatus (butlast (acquired ?s')) v"
      if "point (callers ?s' ! k) = at_test"
      using that ki pi q by auto
    show "globals ?s' = fold setExitStatus (butlast (acquired ?s')) v"
      if "point (callers ?s' ! k) = at_store"
      using g by simp
    show "exitStatus (globals ?s') < ns ! k" if "point (callers ?s' ! k) = at_store"
    proof -
      from that ki pi have "q = at_store" by simp
      then have "exitStatus (globals s) < ns ! i" by (rule store)
      with ki show ?thesis by simp
    qed
    show "globals ?s' = fold setExitStatus (acquired ?s') v" if "point (callers ?s' ! k) = at_Unlock"
    proof -
      from that ki pi have "q = at_Unlock" by simp
      then show ?thesis by (rule unlock)
    qed
  qed
  then show ?thesis by (simp only: q_def)
qed

lemma inv_store:
  assumes inv: "calls_inv v ns s" and i: "i < length (callers s)"
    and pt: "point (callers s ! i) = at_store"
  shows "calls_inv v ns
     (s\<lparr>globals := (globals s)\<lparr>exitStatus := status_arg (callers s ! i)\<rparr>,
        callers := (callers s)[i := (callers s ! i)\<lparr>point := at_Unlock\<rparr>]\<rparr>)"
proof -
  note d = calls_invD [OF inv]
  have len: "length (callers s) = length ns" using d(1) by (metis length_map)
  have a: "status_arg (callers s ! i) = ns ! i" using d(1) i by (metis nth_map)
  have crit: "critical (callers s ! i)" using pt by (simp add: critical_def)
  have mu: "exitMu s = Some i" using d(4) [of i] i len crit by simp
  have h: "acquired s \<noteq> []" "last (acquired s) = ns ! i" using d(6) [OF mu] by blast+
  have g: "globals s = fold setExitStatus (butlast (acquired s)) v"
    and less: "exitStatus (globals s) < ns ! i"
    using d(8) [OF mu pt] by blast+
  have "fold setExitStatus (acquired s) v = setExitStatus (ns ! i) (globals s)"
    using fold_butlast_last [OF h(1), of v] h(2) g by simp
  with less have full: "fold setExitStatus (acquired s) v = (globals s)\<lparr>exitStatus := ns ! i\<rparr>"
    by (simp add: setExitStatus_def)
  let ?s' = "s\<lparr>globals := (globals s)\<lparr>exitStatus := status_arg (callers s ! i)\<rparr>,
        callers := (callers s)[i := (callers s ! i)\<lparr>point := at_Unlock\<rparr>]\<rparr>"
  have pi: "point (callers ?s' ! i) = at_Unlock" using i by simp
  have c1: "map status_arg (callers ?s') = ns"
    using i d(1) by (simp add: status_arg_update)
  have c3: "ns ! j \<in> set (acquired ?s')" if "j < length ns" "point (callers ?s' ! j) \<noteq> at_Lock" for j
  proof (cases "j = i")
    case True
    with d(3) [of i] pt i len show ?thesis by simp
  next
    case False
    with that have "point (callers s ! j) \<noteq> at_Lock" by simp
    with d(3) that(1) show ?thesis by simp
  qed
  have c4: "exitMu ?s' = Some j" if "j < length ns" "critical (callers ?s' ! j)" for j
  proof (cases "j = i")
    case True
    with mu show ?thesis by simp
  next
    case False
    with that have "critical (callers s ! j)" by simp
    with d(4) that(1) show ?thesis by simp
  qed
  show ?thesis
    unfolding calls_inv_def
  proof (intro conjI allI impI)
    show "map status_arg (callers ?s') = ns" by (rule c1)
    show "set (acquired ?s') \<subseteq> set ns" using d(2) by simp
    show "ns ! j \<in> set (acquired ?s')" if "j < length ns" "point (callers ?s' ! j) \<noteq> at_Lock" for j
      using that by (rule c3)
    show "exitMu ?s' = Some j" if "j < length ns" "critical (callers ?s' ! j)" for j
      using that by (rule c4)
    show "globals ?s' = fold setExitStatus (acquired ?s') v" if "exitMu ?s' = None"
      using that mu by simp
  next
    fix k assume k: "exitMu ?s' = Some k"
    with mu have ki: "k = i" by simp
    show "k < length ns" using ki i len by simp
    show "critical (callers ?s' ! k)" using ki pi by (simp add: critical_def)
    show "acquired ?s' \<noteq> []" using h(1) by simp
    show "last (acquired ?s') = ns ! k" using h(2) ki by simp
    show "globals ?s' = fold setExitStatus (butlast (acquired ?s')) v"
      if "point (callers ?s' ! k) = at_test"
      using that ki pi by simp
    show "globals ?s' = fold setExitStatus (butlast (acquired ?s')) v"
      if "point (callers ?s' ! k) = at_store"
      using that ki pi by simp
    show "exitStatus (globals ?s') < ns ! k" if "point (callers ?s' ! k) = at_store"
      using that ki pi by simp
    show "globals ?s' = fold setExitStatus (acquired ?s') v" if "point (callers ?s' ! k) = at_Unlock"
      using full by (simp add: a)
  qed
qed

lemma inv_Unlock:
  assumes inv: "calls_inv v ns s" and i: "i < length (callers s)"
    and pt: "point (callers s ! i) = at_Unlock"
  shows "calls_inv v ns
     (s\<lparr>exitMu := None, callers := (callers s)[i := (callers s ! i)\<lparr>point := returned_call\<rparr>]\<rparr>)"
proof -
  note d = calls_invD [OF inv]
  have len: "length (callers s) = length ns" using d(1) by (metis length_map)
  have crit: "critical (callers s ! i)" using pt by (simp add: critical_def)
  have mu: "exitMu s = Some i" using d(4) [of i] i len crit by simp
  have g: "globals s = fold setExitStatus (acquired s) v" using d(9) [OF mu pt] .
  let ?s' = "s\<lparr>exitMu := None, callers := (callers s)[i := (callers s ! i)\<lparr>point := returned_call\<rparr>]\<rparr>"
  have c1: "map status_arg (callers ?s') = ns"
    using i d(1) by (simp add: status_arg_update)
  have c3: "ns ! j \<in> set (acquired ?s')" if "j < length ns" "point (callers ?s' ! j) \<noteq> at_Lock" for j
  proof (cases "j = i")
    case True
    with d(3) [of i] pt i len show ?thesis by simp
  next
    case False
    with that have "point (callers s ! j) \<noteq> at_Lock" by simp
    with d(3) that(1) show ?thesis by simp
  qed
  have c4: "\<not> critical (callers ?s' ! j)" if "j < length ns" for j
  proof (cases "j = i")
    case True
    with i show ?thesis by (simp add: critical_def)
  next
    case False
    show ?thesis
    proof
      assume "critical (callers ?s' ! j)"
      with False have "critical (callers s ! j)" by simp
      with d(4) that have "exitMu s = Some j" by simp
      with mu False show False by simp
    qed
  qed
  show ?thesis
    unfolding calls_inv_def
  proof (intro conjI allI impI)
    show "map status_arg (callers ?s') = ns" by (rule c1)
    show "set (acquired ?s') \<subseteq> set ns" using d(2) by simp
    show "ns ! j \<in> set (acquired ?s')" if "j < length ns" "point (callers ?s' ! j) \<noteq> at_Lock" for j
      using that by (rule c3)
    show "exitMu ?s' = Some j" if "j < length ns" "critical (callers ?s' ! j)" for j
      using that c4 by blast
    show "globals ?s' = fold setExitStatus (acquired ?s') v" if "exitMu ?s' = None"
      using g by simp
  next
    fix k assume k: "exitMu ?s' = Some k"
    then have f: False by simp
    show "k < length ns" using f ..
    show "critical (callers ?s' ! k)" using f ..
    show "acquired ?s' \<noteq> []" using f ..
    show "last (acquired ?s') = ns ! k" using f ..
    show "globals ?s' = fold setExitStatus (butlast (acquired ?s')) v" using f ..
    show "globals ?s' = fold setExitStatus (butlast (acquired ?s')) v" using f ..
    show "exitStatus (globals ?s') < ns ! k" using f ..
    show "globals ?s' = fold setExitStatus (acquired ?s') v" using f ..
  qed
qed


lemma call_step_inv:
  assumes inv: "calls_inv v ns s" and st: "call_step i s = Some s'"
  shows "calls_inv v ns s'"
proof -
  have i: "i < length (callers s)"
  proof (rule ccontr)
    assume "\<not> i < length (callers s)"
    then have "call_step i s = None" by (intro call_step_none) simp
    with st show False by simp
  qed
  show ?thesis
  proof (cases "point (callers s ! i)")
    case at_Lock
    with st i have free: "exitMu s = None"
      by (simp add: call_step_Lock split: if_splits)
    with st i at_Lock have "s' = s\<lparr>exitMu := Some i,
        callers := (callers s)[i := (callers s ! i)\<lparr>point := at_test\<rparr>],
        acquired := acquired s @ [status_arg (callers s ! i)]\<rparr>"
      by (simp add: call_step_Lock)
    with inv_Lock [OF inv i at_Lock free] show ?thesis by simp
  next
    case at_test
    with st i have "s' = s\<lparr>callers := (callers s)[i := (callers s ! i)\<lparr>point :=
         (if exitStatus (globals s) < status_arg (callers s ! i) then at_store else at_Unlock)\<rparr>]\<rparr>"
      by (simp add: call_step_test)
    with inv_test [OF inv i at_test] show ?thesis by simp
  next
    case at_store
    with st i have "s' = s\<lparr>globals := (globals s)\<lparr>exitStatus := status_arg (callers s ! i)\<rparr>,
        callers := (callers s)[i := (callers s ! i)\<lparr>point := at_Unlock\<rparr>]\<rparr>"
      by (simp add: call_step_store)
    with inv_store [OF inv i at_store] show ?thesis by simp
  next
    case at_Unlock
    with st i have "s' = s\<lparr>exitMu := None,
        callers := (callers s)[i := (callers s ! i)\<lparr>point := returned_call\<rparr>]\<rparr>"
      by (simp add: call_step_Unlock)
    with inv_Unlock [OF inv i at_Unlock] show ?thesis by simp
  next
    case returned_call
    then have "call_step i s = None" by (intro call_step_none) simp
    with st show ?thesis by simp
  qed
qed

lemma call_step_mono:
  assumes inv: "calls_inv v ns s" and st: "call_step i s = Some s'"
  shows "exitStatus (globals s) \<le> exitStatus (globals s')"
proof -
  note d = calls_invD [OF inv]
  have i: "i < length (callers s)"
  proof (rule ccontr)
    assume "\<not> i < length (callers s)"
    then have "call_step i s = None" by (intro call_step_none) simp
    with st show False by simp
  qed
  have len: "length (callers s) = length ns" using d(1) by (metis length_map)
  have a: "status_arg (callers s ! i) = ns ! i" using d(1) i by (metis nth_map)
  show ?thesis
  proof (cases "point (callers s ! i)")
    case at_Lock
    with st i show ?thesis by (auto simp: call_step_Lock split: if_splits)
  next
    case at_test
    with st i show ?thesis by (auto simp: call_step_test)
  next
    case at_store
    then have "critical (callers s ! i)" by (simp add: critical_def)
    then have mu: "exitMu s = Some i" using d(4) [of i] i len by simp
    have "exitStatus (globals s) < ns ! i" using d(8) [OF mu at_store] by blast
    moreover from st i at_store have "exitStatus (globals s') = ns ! i"
      by (auto simp: call_step_store a)
    ultimately show ?thesis by simp
  next
    case at_Unlock
    with st i show ?thesis by (auto simp: call_step_Unlock)
  next
    case returned_call
    then have "call_step i s = None" by (intro call_step_none) simp
    with st show ?thesis by simp
  qed
qed

lemma calls_run_inv:
  "calls_inv v ns s \<Longrightarrow> calls_run sch s = Some s' \<Longrightarrow>
     calls_inv v ns s' \<and> exitStatus (globals s) \<le> exitStatus (globals s')"
proof (induction sch arbitrary: s)
  case Nil
  then show ?case by simp
next
  case (Cons i sch)
  from Cons.prems(2) obtain s1 where s1: "call_step i s = Some s1" and r: "calls_run sch s1 = Some s'"
    by (auto split: option.splits)
  have "calls_inv v ns s1" using Cons.prems(1) s1 by (rule call_step_inv)
  then have "calls_inv v ns s' \<and> exitStatus (globals s1) \<le> exitStatus (globals s')"
    using r by (rule Cons.IH)
  moreover have "exitStatus (globals s) \<le> exitStatus (globals s1)"
    using Cons.prems(1) s1 by (rule call_step_mono)
  ultimately show ?case by simp
qed

lemma calls_run_split:
  "calls_run sch s = Some s' \<Longrightarrow>
     \<exists>s1. calls_run (take k sch) s = Some s1 \<and> calls_run (drop k sch) s1 = Some s'"
proof (induction sch arbitrary: s k)
  case Nil
  then show ?case by simp
next
  case (Cons i sch)
  show ?case
  proof (cases k)
    case 0
    with Cons.prems show ?thesis by simp
  next
    case (Suc k')
    from Cons.prems obtain s0 where s0: "call_step i s = Some s0" and r: "calls_run sch s0 = Some s'"
      by (auto split: option.splits)
    from Cons.IH [OF r, of k'] s0 Suc show ?thesis by simp
  qed
qed

lemma calls_inv_exclusion:
  assumes "calls_inv v ns s" "i < length (callers s)" "j < length (callers s)"
    "critical (callers s ! i)" "critical (callers s ! j)"
  shows "i = j"
proof -
  note d = calls_invD [OF assms(1)]
  have len: "length (callers s) = length ns" using d(1) by (metis length_map)
  have "exitMu s = Some i" using d(4) [of i] assms(2,4) len by simp
  moreover have "exitMu s = Some j" using d(4) [of j] assms(3,5) len by simp
  ultimately show ?thesis by simp
qed

lemma calls_inv_all_returned:
  assumes inv: "calls_inv v ns s" and all: "\<forall>c\<in>set (callers s). point c = returned_call"
  shows "globals s = fold setExitStatus (acquired s) v \<and> set (acquired s) = set ns"
proof -
  note d = calls_invD [OF inv]
  have len: "length (callers s) = length ns" using d(1) by (metis length_map)
  have ret: "point (callers s ! j) = returned_call" if "j < length ns" for j
    using all that len by (metis nth_mem)
  have "exitMu s = None"
  proof (cases "exitMu s")
    case None
    then show ?thesis .
  next
    case (Some i)
    from d(6) [OF Some] have "i < length ns" "critical (callers s ! i)" by blast+
    with ret [of i] show ?thesis by (simp add: critical_def)
  qed
  then have g: "globals s = fold setExitStatus (acquired s) v" by (rule d(5))
  have "set ns \<subseteq> set (acquired s)"
  proof
    fix n assume "n \<in> set ns"
    then obtain j where j: "j < length ns" "ns ! j = n" by (auto simp: in_set_conv_nth)
    from ret [OF j(1)] have "point (callers s ! j) \<noteq> at_Lock" by simp
    with d(3) [OF j(1)] j(2) show "n \<in> set (acquired s)" by simp
  qed
  with d(2) g show ?thesis by blast
qed

lemma calls_run_properties:
  assumes run: "calls_run sch (calls_start v ns) = Some s"
  shows "\<forall>i j. i < length (callers s) \<and> j < length (callers s)
            \<and> critical (callers s ! i) \<and> critical (callers s ! j) \<longrightarrow> i = j"
    and "set (acquired s) \<subseteq> set ns"
    and "exitMu s = None \<longrightarrow> globals s = fold setExitStatus (acquired s) v"
    and "(\<forall>c\<in>set (callers s). point c = returned_call) \<longrightarrow>
            exitStatus (globals s) = Max (insert (exitStatus v) (set ns))"
    and "\<forall>k s1. calls_run (take k sch) (calls_start v ns) = Some s1 \<longrightarrow>
            exitStatus (globals s1) \<le> exitStatus (globals s)"
proof -
  have inv: "calls_inv v ns s"
    using calls_run_inv [OF calls_inv_start run] by blast
  note d = calls_invD [OF inv]
  show "\<forall>i j. i < length (callers s) \<and> j < length (callers s)
            \<and> critical (callers s ! i) \<and> critical (callers s ! j) \<longrightarrow> i = j"
    using calls_inv_exclusion [OF inv] by blast
  show "set (acquired s) \<subseteq> set ns" by (rule d(2))
  show "exitMu s = None \<longrightarrow> globals s = fold setExitStatus (acquired s) v"
    using d(5) by blast
  show "(\<forall>c\<in>set (callers s). point c = returned_call) \<longrightarrow>
            exitStatus (globals s) = Max (insert (exitStatus v) (set ns))"
  proof
    assume "\<forall>c\<in>set (callers s). point c = returned_call"
    with inv have "globals s = fold setExitStatus (acquired s) v \<and> set (acquired s) = set ns"
      by (rule calls_inv_all_returned)
    then show "exitStatus (globals s) = Max (insert (exitStatus v) (set ns))"
      using fold_setExitStatus_Max [of "acquired s" v] by simp
  qed
  show "\<forall>k s1. calls_run (take k sch) (calls_start v ns) = Some s1 \<longrightarrow>
            exitStatus (globals s1) \<le> exitStatus (globals s)"
  proof (intro allI impI)
    fix k s1 assume t: "calls_run (take k sch) (calls_start v ns) = Some s1"
    from calls_run_split [OF run, of k] t
    have r: "calls_run (drop k sch) s1 = Some s" by auto
    have "calls_inv v ns s1"
      using calls_run_inv [OF calls_inv_start t] by blast
    then show "exitStatus (globals s1) \<le> exitStatus (globals s)"
      using calls_run_inv [OF _ r] by blast
  qed
qed

lemma calls_second_Lock_blocked:
  "calls_run [0, 1] (calls_start v [2, 1]) = None"
  by (simp add: call_step_def calls_start_def Let_def)

text \<open>
  Claim C2, as stated, at the single call \<^verbatim>\<open>setExitStatus(-1)\<close>: the status stays at
  its initial value 0, which is not the maximum value passed, \<open>-1\<close>.
\<close>

theorem setExitStatus_counterexample:
  "exitStatus (fold setExitStatus [- 1] (init_vars ())) = 0 \<and> Max (set [- 1 :: int]) = - 1"
  by (simp add: setExitStatus_def init_vars_def)

text \<open>
  Claim C2, amended. The exit status starts at 0. Each call of \<^verbatim>\<open>setExitStatus(n)\<close> sets
  it to the maximum of its current value and \<open>n\<close>, and does so atomically: under every
  schedule of concurrent calls at most one call is between \<^verbatim>\<open>Lock\<close> and \<^verbatim>\<open>Unlock\<close>, and
  whenever the mutex is free the variables are those that the bodies of the calls that
  have locked it so far produce when run one after another, in the order in which they
  locked it. After any finite sequence of calls, and after any schedule in which all
  concurrent calls have returned, the status is the maximum of 0 and the values passed;
  it is never less than it was after a prefix of the sequence or of the schedule.
\<close>

theorem setExitStatus_sequence:
  "exitStatus (init_vars w) = 0
   \<and> exitStatus (setExitStatus n v) = max (exitStatus v) n
   \<and> exitStatus (fold setExitStatus ns (init_vars w)) = Max (insert 0 (set ns))
   \<and> (\<forall>k \<le> length ns. exitStatus (fold setExitStatus (take k ns) v)
          \<le> exitStatus (fold setExitStatus ns v))
   \<and> (calls_run sch (calls_start (init_vars w) ns) = Some s \<longrightarrow>
        (\<forall>i j. i < length (callers s) \<and> j < length (callers s)
            \<and> critical (callers s ! i) \<and> critical (callers s ! j) \<longrightarrow> i = j)
        \<and> set (acquired s) \<subseteq> set ns
        \<and> (exitMu s = None \<longrightarrow> globals s = fold setExitStatus (acquired s) (init_vars w))
        \<and> ((\<forall>c\<in>set (callers s). point c = returned_call) \<longrightarrow>
              exitStatus (globals s) = Max (insert 0 (set ns)))
        \<and> (\<forall>k s1. calls_run (take k sch) (calls_start (init_vars w) ns) = Some s1 \<longrightarrow>
              exitStatus (globals s1) \<le> exitStatus (globals s)))"
proof (intro conjI impI)
  show "exitStatus (init_vars w) = 0" by (simp add: init_vars_def)
  show "exitStatus (setExitStatus n v) = max (exitStatus v) n" by (rule setExitStatus_max)
  show "exitStatus (fold setExitStatus ns (init_vars w)) = Max (insert 0 (set ns))"
    by (simp add: fold_setExitStatus_Max init_vars_def)
  show "\<forall>k \<le> length ns. exitStatus (fold setExitStatus (take k ns) v)
          \<le> exitStatus (fold setExitStatus ns v)"
  proof (intro allI impI)
    fix k
    have "fold setExitStatus ns v = fold setExitStatus (drop k ns) (fold setExitStatus (take k ns) v)"
      by (metis append_take_drop_id fold_append comp_apply)
    then show "exitStatus (fold setExitStatus (take k ns) v) \<le> exitStatus (fold setExitStatus ns v)"
      by (simp add: fold_setExitStatus_mono)
  qed
next
  assume run: "calls_run sch (calls_start (init_vars w) ns) = Some s"
  note p = calls_run_properties [OF run]
  have z: "exitStatus (init_vars w) = 0" by (simp add: init_vars_def)
  show "\<forall>i j. i < length (callers s) \<and> j < length (callers s)
            \<and> critical (callers s ! i) \<and> critical (callers s ! j) \<longrightarrow> i = j"
    by (rule p(1))
  show "set (acquired s) \<subseteq> set ns" by (rule p(2))
  show "globals s = fold setExitStatus (acquired s) (init_vars w)" if "exitMu s = None"
    using p(3) that by (rule mp)
  show "exitStatus (globals s) = Max (insert 0 (set ns))"
    if "\<forall>c\<in>set (callers s). point c = returned_call"
    using p(4) [THEN mp, OF that] by (simp only: z)
  show "\<forall>k s1. calls_run (take k sch) (calls_start (init_vars w) ns) = Some s1 \<longrightarrow>
              exitStatus (globals s1) \<le> exitStatus (globals s)"
    by (rule p(5))
qed


theorem setExitStatus_sequence_witness:
  "exitStatus (fold setExitStatus [1, 0, 2] (init_vars ())) = 2
   \<and> (1::nat) \<le> length [1::int, 0, 2]
   \<and> exitStatus (fold setExitStatus (take 1 [1, 0, 2]) (init_vars ()))
       \<le> exitStatus (fold setExitStatus [1, 0, 2] (init_vars ()))
   \<and> calls_run [0, 0, 0, 0, 1, 1, 1] (calls_start (init_vars ()) [2, 1]) = Some example_calls_end
   \<and> exitMu example_calls_end = None
   \<and> globals example_calls_end = fold setExitStatus (acquired example_calls_end) (init_vars ())
   \<and> map point (callers example_calls_end) = [returned_call, returned_call]
   \<and> exitStatus (globals example_calls_end) = 2
   \<and> calls_run (take 2 [0, 0, 0, 0, 1, 1, 1]) (calls_start (init_vars ()) [2, 1])
       = Some example_calls_middle
   \<and> exitStatus (globals example_calls_middle) \<le> exitStatus (globals example_calls_end)"
proof -
  let ?sch = "[0, 0, 0, 0, 1, 1, 1] :: nat list"
  note seq = setExitStatus_sequence [of "()" 0 "init_vars ()" "[1, 0, 2]" ?sch example_calls_end]
  note conc = setExitStatus_sequence [of "()" 0 "init_vars ()" "[2, 1]" ?sch example_calls_end]
  have a1: "exitStatus (fold setExitStatus [1, 0, 2] (init_vars ())) = 2"
    using seq [THEN conjunct2, THEN conjunct2, THEN conjunct1] by simp
  have a2: "(1::nat) \<le> length [1::int, 0, 2]" by simp
  have a3: "exitStatus (fold setExitStatus (take 1 [1, 0, 2]) (init_vars ()))
      \<le> exitStatus (fold setExitStatus [1, 0, 2] (init_vars ()))"
    using seq [THEN conjunct2, THEN conjunct2, THEN conjunct2, THEN conjunct1, THEN spec, THEN mp, OF a2] .
  have run: "calls_run ?sch (calls_start (init_vars ()) [2, 1]) = Some example_calls_end"
    by (simp add: call_step_def calls_start_def example_calls_end_def Let_def init_vars_def)
  note c = conc [THEN conjunct2, THEN conjunct2, THEN conjunct2, THEN conjunct2, THEN mp, OF run]
  have free: "exitMu example_calls_end = None"
    by (simp add: example_calls_end_def)
  have b1: "globals example_calls_end
      = fold setExitStatus (acquired example_calls_end) (init_vars ())"
    using c [THEN conjunct2, THEN conjunct2, THEN conjunct1, THEN mp, OF free] .
  have pts: "map point (callers example_calls_end) = [returned_call, returned_call]"
    by (simp add: example_calls_end_def)
  have all: "\<forall>c\<in>set (callers example_calls_end). point c = returned_call"
    by (simp add: example_calls_end_def)
  have "exitStatus (globals example_calls_end) = Max (insert 0 (set [2, 1]))"
    using c [THEN conjunct2, THEN conjunct2, THEN conjunct2, THEN conjunct1, THEN mp, OF all] .
  then have b2: "exitStatus (globals example_calls_end) = 2" by simp
  have mid: "calls_run (take 2 ?sch) (calls_start (init_vars ()) [2, 1]) = Some example_calls_middle"
    by (simp add: call_step_def calls_start_def example_calls_middle_def Let_def init_vars_def)
  have b3: "exitStatus (globals example_calls_middle) \<le> exitStatus (globals example_calls_end)"
    using c [THEN conjunct2, THEN conjunct2, THEN conjunct2, THEN conjunct2, THEN spec, THEN spec,
        THEN mp, OF mid] .
  show ?thesis
    by (intro conjI) (fact a1 a2 a3 run free b1 pts b2 mid b3)+
qed

section \<open>Properties of the cleanup chain\<close>

lemma run_atexit_eq:
  "run_atexit fs k evs v = (evs @ map Cleanup [k..<k + length fs], fold (\<lambda>f. f) fs v)"
proof (induction fs arbitrary: k evs v)
  case Nil
  show ?case by simp
next
  case (Cons f fs)
  have "[k..<k + length (f # fs)] = k # [Suc k..<Suc k + length fs]"
    using upt_conv_Cons [of k "Suc (k + length fs)"] by simp
  with Cons show ?case by simp
qed

lemma atexitFuncs_fold_atexit: "atexitFuncs (fold atexit fs p) = atexitFuncs p @ fs"
  by (induction fs arbitrary: p) (simp_all add: atexit_def)

lemma vars_fold_atexit: "vars (fold atexit fs p) = vars p"
  by (induction fs arbitrary: p) (simp_all add: atexit_def)

lemma fold_log: "other (fold (\<lambda>f. f) (map (\<lambda>l v. v\<lparr>other := other v @ [l]\<rparr>) ls) v) = other v @ ls"
  by (induction ls arbitrary: v) simp_all

text \<open>
  Claim C5. After the cleanup actions \<open>fs\<close> have been registered with \<^verbatim>\<open>atexit\<close> in this
  order, \<^verbatim>\<open>exit()\<close> calls every element of \<^verbatim>\<open>atexitFuncs\<close> exactly once, in the order
  of registration (the calls are \<open>Cleanup 0\<close>, \<open>Cleanup 1\<close>, ... and the variables are
  those obtained by applying the actions one after another), and then ends the process
  with the exit status as it stands after them. With actions that append their label to
  an external log, the log ends up extended by the labels in registration order.
\<close>

theorem exit_runs_cleanup_in_order:
  "events (exit (fold atexit fs p))
     = Shutdown # map Cleanup [0..<length (atexitFuncs p @ fs)]
   \<and> vars (final (exit (fold atexit fs p))) = fold (\<lambda>f. f) (atexitFuncs p @ fs) (vars p)
   \<and> ending (exit (fold atexit fs p))
     = OsExit (exitStatus (vars (final (exit (fold atexit fs p)))))
   \<and> other (vars (final (exit (fold atexit
        (map (\<lambda>l v. v\<lparr>other := other v @ [l]\<rparr>) ls) (init_proc log))))) = log @ ls"
  by (simp add: exit_def run_atexit_eq atexitFuncs_fold_atexit vars_fold_atexit fold_log
      init_proc_def init_vars_def)

section \<open>Properties of main, usage and help\<close>

lemmas example_defs = example_env_def example_proc_def atexit_def init_proc_def init_vars_def
  runnable_def topic_def logging_handler_def log_cleanup_def

lemma exit_events: "events (exit p) = Shutdown # map Cleanup [0..<length (atexitFuncs p)]"
  by (simp add: exit_def run_atexit_eq)

lemma exit_vars: "vars (final (exit p)) = fold (\<lambda>f. f) (atexitFuncs p) (vars p)"
  by (simp add: exit_def run_atexit_eq)

lemma exit_ending: "ending (exit p) = OsExit (exitStatus (vars (final (exit p))))"
  by (simp add: exit_def run_atexit_eq)

lemma exit_atexitFuncs: "atexitFuncs (final (exit p)) = atexitFuncs p"
  by (simp add: exit_def run_atexit_eq)

lemma count_Shutdown_exit: "count_list (events (exit p)) Shutdown = 1"
proof -
  have "count_list (map Cleanup ks) Shutdown = 0" for ks
    by (induction ks) simp_all
  then show ?thesis by (simp add: exit_events)
qed

lemma dispatch_Cons:
  "dispatch e (cmd # cmds) i a rest p =
     (if selects a cmd then
        (exit (the (Run cmd) (cmd_text.truncate cmd) rest p))
          \<lparr>events := Handler i rest # events (exit (the (Run cmd) (cmd_text.truncate cmd) rest p))\<rparr>
      else dispatch e cmds (Suc i) a rest p)"
  by (auto simp: selects_def Let_def)

lemma dispatch_find:
  "dispatch e cmds i a rest p =
     (case find (selects a) cmds of
        None \<Rightarrow> exit (p\<lparr>vars := setExitStatus 2
                  (Fprintf os_Stderr (unknown_subcommand e a) (vars p))\<rparr>)
      | Some c \<Rightarrow>
          (exit (the (Run c) (cmd_text.truncate c) rest p))
            \<lparr>events := Handler (i + length (takeWhile (\<lambda>c. \<not> selects a c) cmds)) rest
               # events (exit (the (Run c) (cmd_text.truncate c) rest p))\<rparr>)"
proof (induction cmds arbitrary: i)
  case Nil
  show ?case by (simp add: unknown_subcommand_def)
next
  case (Cons c cmds)
  show ?case
  proof (cases "selects a c")
    case True
    then show ?thesis by (simp only: dispatch_Cons) simp
  next
    case False
    then show ?thesis using Cons [of "Suc i"]
      by (simp only: dispatch_Cons) (simp split: option.split)
  qed
qed

lemma help_topic_find:
  "help_topic e cmds arg p =
     (case find (\<lambda>c. Name c = arg) cmds of
        None \<Rightarrow>
          \<lparr>events = [], ending = OsExit 2,
           final = p\<lparr>vars := Fprintf os_Stderr
             (''Unknown help topic '' @ fmt_sharp_q e arg @ ''.  Run 'gpm help'.\<newline>'') (vars p)\<rparr>\<rparr>
      | Some c \<Rightarrow>
          \<lparr>events = [],
           ending = (if snd (template e helpTemplate (OneCommand c)) then Returned else Panic),
           final = p\<lparr>vars := Fprintf os_Stdout (fst (template e helpTemplate (OneCommand c))) (vars p)\<rparr>\<rparr>)"
  by (induction cmds) (simp_all add: tmpl_def split: prod.split)

lemma find_distinct:
  "distinct (map f xs) \<Longrightarrow> x \<in> set xs \<Longrightarrow> find (\<lambda>y. f y = f x) xs = Some x"
  by (induction xs) auto

lemma find_none_runnable:
  assumes "distinct (map Name cmds)" "cmd \<in> set cmds" "Run cmd = None"
  shows "find (selects (Name cmd)) cmds = None"
proof -
  have "c = cmd" if "c \<in> set cmds" "Name c = Name cmd" for c
    using that assms(1,2) by (meson distinct_map inj_onD)
  with assms(3) show ?thesis by (auto simp: find_None_iff selects_def)
qed

lemma dispatch_exit:
  "\<exists>hs. (hs = [] \<or> (\<exists>j. hs = [Handler j rest]))
     \<and> dispatch e (commands e) i a rest p
        = (exit (shutdown_entry e a rest p))\<lparr>events := hs @ events (exit (shutdown_entry e a rest p))\<rparr>"
proof (cases "find (selects a) (commands e)")
  case None
  then have "dispatch e (commands e) i a rest p
      = (exit (shutdown_entry e a rest p))\<lparr>events := [] @ events (exit (shutdown_entry e a rest p))\<rparr>"
    by (simp add: dispatch_find shutdown_entry_def)
  then show ?thesis by blast
next
  case (Some c)
  then have "dispatch e (commands e) i a rest p
      = (exit (shutdown_entry e a rest p))
          \<lparr>events := [Handler (i + length (takeWhile (\<lambda>c. \<not> selects a c) (commands e))) rest]
             @ events (exit (shutdown_entry e a rest p))\<rparr>"
    by (simp add: dispatch_find shutdown_entry_def)
  then show ?thesis by blast
qed

lemma main_dispatch:
  assumes "initialize e (vars p) = (v, True)" "args \<noteq> []" "hd args \<noteq> ''help''"
  shows "main e args p = dispatch e (commands e) 0 (hd args) (tl args) (p\<lparr>vars := v\<rparr>)"
  using assms by (cases args) (simp_all add: main_def)

lemma main_usage:
  assumes "initialize e (vars p) = (v, True)"
  shows "main e [] p = usage e (p\<lparr>vars := v\<rparr>)"
  using assms by (simp add: main_def)

lemma main_help:
  assumes "initialize e (vars p) = (v, True)"
  shows "main e (''help'' # rest) p = help_cmd e rest (p\<lparr>vars := v\<rparr>)"
  using assms by (simp add: main_def)

lemma usage_run:
  "events (usage e p) = []
   \<and> ending (usage e p)
      = (if snd (template e (usageTemplate e) (AllCommands (commands e))) then OsExit 2 else Panic)
   \<and> final (usage e p)
      = p\<lparr>vars := Fprintf os_Stderr
            (fst (template e (usageTemplate e) (AllCommands (commands e)))) (vars p)\<rparr>"
  by (simp add: usage_def printUsage_def tmpl_def split: prod.split)

lemma Fprintf_keeps:
  "exitStatus (Fprintf w s v) = exitStatus v \<and> other (Fprintf w s v) = other v"
  by (cases w) simp_all

lemma tmpl_eq:
  "tmpl e w text data v = (Fprintf w (fst (template e text data)) v, snd (template e text data))"
  by (simp add: tmpl_def split: prod.split)

lemma help_topic_run:
  "events (help_topic e cmds arg p) = []
   \<and> ending (help_topic e cmds arg p) \<in> {Returned, OsExit 2, Panic}
   \<and> exitStatus (vars (final (help_topic e cmds arg p))) = exitStatus (vars p)
   \<and> other (vars (final (help_topic e cmds arg p))) = other (vars p)
   \<and> atexitFuncs (final (help_topic e cmds arg p)) = atexitFuncs p"
  by (cases "find (\<lambda>c. Name c = arg) cmds") (simp_all add: help_topic_find)

lemma help_cmd_run:
  "events (help_cmd e args p) = []
   \<and> ending (help_cmd e args p) \<in> {Returned, OsExit 2, Panic}
   \<and> exitStatus (vars (final (help_cmd e args p))) = exitStatus (vars p)
   \<and> other (vars (final (help_cmd e args p))) = other (vars p)
   \<and> atexitFuncs (final (help_cmd e args p)) = atexitFuncs p"
proof (cases "length args = 0")
  case True
  then show ?thesis
    by (simp add: help_cmd_def printUsage_def tmpl_eq)
next
  case False
  show ?thesis
  proof (cases "length args \<noteq> 1")
    case True
    with False show ?thesis by (simp add: help_cmd_def)
  next
    case one: False
    with False have "help_cmd e args p = help_topic e (commands e) (hd args) p"
      by (simp add: help_cmd_def)
    then show ?thesis by (simp only: help_topic_run)
  qed
qed

lemma help_cmd_no_args:
  "help_cmd e [] p =
     \<lparr>events = [],
      ending = (if snd (template e (usageTemplate e) (AllCommands (commands e)))
                then Returned else Panic),
      final = p\<lparr>vars := Fprintf os_Stdout
                (fst (template e (usageTemplate e) (AllCommands (commands e)))) (vars p)\<rparr>\<rparr>"
  by (simp add: help_cmd_def printUsage_def tmpl_eq)

lemma help_cmd_too_many:
  assumes "2 \<le> length args"
  shows "help_cmd e args p =
     \<lparr>events = [], ending = OsExit 2,
      final = p\<lparr>vars := Fprintf os_Stderr too_many_arguments (vars p)\<rparr>\<rparr>"
proof -
  from assms have "length args \<noteq> 0 \<and> length args \<noteq> 1" by (cases args) auto
  then show ?thesis by (simp add: help_cmd_def too_many_arguments_def)
qed

lemma help_cmd_one_arg:
  "help_cmd e [arg] p =
     (case find (\<lambda>c. Name c = arg) (commands e) of
        None \<Rightarrow>
          \<lparr>events = [], ending = OsExit 2,
           final = p\<lparr>vars := Fprintf os_Stderr (unknown_help_topic e arg) (vars p)\<rparr>\<rparr>
      | Some c \<Rightarrow>
          \<lparr>events = [],
           ending = (if snd (template e helpTemplate (OneCommand c)) then Returned else Panic),
           final = p\<lparr>vars := Fprintf os_Stdout (fst (template e helpTemplate (OneCommand c))) (vars p)\<rparr>\<rparr>)"
  by (simp add: help_cmd_def help_topic_find unknown_help_topic_def split: option.split)

text \<open>
  Claim C1, as stated, at a run without arguments of a process that registered one
  cleanup action: \<^verbatim>\<open>usage()\<close> ends the process with \<^verbatim>\<open>os.Exit(2)\<close>; \<^verbatim>\<open>exit()\<close> is never
  entered and the cleanup action is not run (the log stays empty).
\<close>

theorem main_without_shutdown_counterexample:
  "atexitFuncs example_proc = [log_cleanup]
   \<and> events (main (example_env [runnable ''build'']) [] example_proc) = []
   \<and> ending (main (example_env [runnable ''build'']) [] example_proc) = OsExit 2
   \<and> other (vars (final (main (example_env [runnable ''build'']) [] example_proc))) = []"
  by (simp add: main_def usage_def printUsage_def tmpl_def example_env_def example_proc_def
      atexit_def init_proc_def init_vars_def)

text \<open>
  Claim C1, amended. After a successful initialization:
  \<^item> with a first argument other than \<open>help\<close>, \<^verbatim>\<open>main\<close> enters \<^verbatim>\<open>exit()\<close> exactly once,
    after the handler of the first runnable command of that name, or, when there is
    none, after the report of an unknown subcommand with the status raised to 2;
    every cleanup action registered by then is run once, in order, and the process
    ends through \<^verbatim>\<open>os.Exit\<close> with the exit status as it stands after them;
  \<^item> without arguments, \<^verbatim>\<open>exit()\<close> is not entered and no cleanup action is run:
    \<^verbatim>\<open>usage()\<close> writes the rendered usage to standard error and ends the process itself
    with \<^verbatim>\<open>os.Exit(2)\<close>;
  \<^item> with first argument \<open>help\<close>, \<^verbatim>\<open>exit()\<close> is not entered and no cleanup action is
    run either: the error paths of \<^verbatim>\<open>help\<close> (two or more further arguments; one further
    argument that names no command) write their message to standard error and end the
    process with \<^verbatim>\<open>os.Exit(2)\<close>; its success paths (no further argument; one that names
    a command) write the rendered text to standard output and end by \<^verbatim>\<open>main\<close>
    returning;
  \<^item> where a template does not render, on the usage path or on a success path of
    \<^verbatim>\<open>help\<close>, the process ends by the panic instead, again without \<^verbatim>\<open>exit()\<close>.
\<close>

theorem main_shutdown_paths:
  assumes "initialize e (vars p) = (v, True)"
  shows
    "(args \<noteq> [] \<and> hd args \<noteq> ''help'' \<longrightarrow>
        count_list (events (main e args p)) Shutdown = 1
        \<and> (\<exists>hs. (hs = [] \<or> (\<exists>j. hs = [Handler j (tl args)]))
              \<and> events (main e args p)
                = hs @ Shutdown # map Cleanup
                    [0..<length (atexitFuncs (shutdown_entry e (hd args) (tl args) (p\<lparr>vars := v\<rparr>)))])
        \<and> vars (final (main e args p))
          = fold (\<lambda>f. f) (atexitFuncs (shutdown_entry e (hd args) (tl args) (p\<lparr>vars := v\<rparr>)))
              (vars (shutdown_entry e (hd args) (tl args) (p\<lparr>vars := v\<rparr>)))
        \<and> ending (main e args p) = OsExit (exitStatus (vars (final (main e args p)))))
     \<and> (args = [] \<longrightarrow>
          main e args p
          = \<lparr>events = [],
             ending = (if snd (template e (usageTemplate e) (AllCommands (commands e)))
                       then OsExit 2 else Panic),
             final = p\<lparr>vars := Fprintf os_Stderr
                       (fst (template e (usageTemplate e) (AllCommands (commands e)))) v\<rparr>\<rparr>)
     \<and> (args = [''help''] \<longrightarrow>
          main e args p
          = \<lparr>events = [],
             ending = (if snd (template e (usageTemplate e) (AllCommands (commands e)))
                       then Returned else Panic),
             final = p\<lparr>vars := Fprintf os_Stdout
                       (fst (template e (usageTemplate e) (AllCommands (commands e)))) v\<rparr>\<rparr>)
     \<and> (args \<noteq> [] \<and> hd args = ''help'' \<and> 2 \<le> length (tl args) \<longrightarrow>
          main e args p
          = \<lparr>events = [], ending = OsExit 2,
             final = p\<lparr>vars := Fprintf os_Stderr too_many_arguments v\<rparr>\<rparr>)
     \<and> (args = [''help'', arg] \<and> find (\<lambda>c. Name c = arg) (commands e) = None \<longrightarrow>
          main e args p
          = \<lparr>events = [], ending = OsExit 2,
             final = p\<lparr>vars := Fprintf os_Stderr (unknown_help_topic e arg) v\<rparr>\<rparr>)
     \<and> (args = [''help'', arg] \<and> find (\<lambda>c. Name c = arg) (commands e) = Some c \<longrightarrow>
          main e args p
          = \<lparr>events = [],
             ending = (if snd (template e helpTemplate (OneCommand c)) then Returned else Panic),
             final = p\<lparr>vars := Fprintf os_Stdout
                       (fst (template e helpTemplate (OneCommand c))) v\<rparr>\<rparr>)"
proof (intro conjI impI)
  assume a: "args \<noteq> [] \<and> hd args \<noteq> ''help''"
  let ?p1 = "shutdown_entry e (hd args) (tl args) (p\<lparr>vars := v\<rparr>)"
  from a assms have m: "main e args p = dispatch e (commands e) 0 (hd args) (tl args) (p\<lparr>vars := v\<rparr>)"
    by (simp add: main_dispatch)
  obtain hs where hs: "hs = [] \<or> (\<exists>j. hs = [Handler j (tl args)])"
    and d: "main e args p = (exit ?p1)\<lparr>events := hs @ events (exit ?p1)\<rparr>"
    using dispatch_exit [of "tl args" e 0 "hd args" "p\<lparr>vars := v\<rparr>"] m by auto
  from hs have c0: "count_list hs Shutdown = 0" by auto
  show "count_list (events (main e args p)) Shutdown = 1"
    using c0 count_Shutdown_exit [of ?p1] by (simp add: d)
  show "\<exists>hs. (hs = [] \<or> (\<exists>j. hs = [Handler j (tl args)]))
      \<and> events (main e args p) = hs @ Shutdown # map Cleanup [0..<length (atexitFuncs ?p1)]"
    using hs by (intro exI [of _ hs]) (simp add: d exit_events)
  show "vars (final (main e args p)) = fold (\<lambda>f. f) (atexitFuncs ?p1) (vars ?p1)"
    by (simp add: d exit_vars)
  show "ending (main e args p) = OsExit (exitStatus (vars (final (main e args p))))"
    using exit_ending [of ?p1] by (simp add: d)
next
  assume "args = []"
  with assms have "main e args p = usage e (p\<lparr>vars := v\<rparr>)"
    by (simp add: main_usage)
  then show "main e args p
      = \<lparr>events = [],
         ending = (if snd (template e (usageTemplate e) (AllCommands (commands e)))
                   then OsExit 2 else Panic),
         final = p\<lparr>vars := Fprintf os_Stderr
                   (fst (template e (usageTemplate e) (AllCommands (commands e)))) v\<rparr>\<rparr>"
    by (simp add: usage_def printUsage_def tmpl_eq)
next
  assume "args = [''help'']"
  then have "main e args p = help_cmd e [] (p\<lparr>vars := v\<rparr>)"
    using main_help [OF assms, of "[]"] by simp
  then show "main e args p
      = \<lparr>events = [],
         ending = (if snd (template e (usageTemplate e) (AllCommands (commands e)))
                   then Returned else Panic),
         final = p\<lparr>vars := Fprintf os_Stdout
                   (fst (template e (usageTemplate e) (AllCommands (commands e)))) v\<rparr>\<rparr>"
    by (simp add: help_cmd_no_args)
next
  assume a: "args \<noteq> [] \<and> hd args = ''help'' \<and> 2 \<le> length (tl args)"
  then have "args = ''help'' # tl args" by (cases args) simp_all
  then have "main e args p = help_cmd e (tl args) (p\<lparr>vars := v\<rparr>)"
    using main_help [OF assms, of "tl args"] by simp
  with a show "main e args p
      = \<lparr>events = [], ending = OsExit 2,
         final = p\<lparr>vars := Fprintf os_Stderr too_many_arguments v\<rparr>\<rparr>"
    by (simp add: help_cmd_too_many)
next
  assume a: "args = [''help'', arg] \<and> find (\<lambda>c. Name c = arg) (commands e) = None"
  then have "main e args p = help_cmd e [arg] (p\<lparr>vars := v\<rparr>)"
    using main_help [OF assms, of "[arg]"] by simp
  with a show "main e args p
      = \<lparr>events = [], ending = OsExit 2,
         final = p\<lparr>vars := Fprintf os_Stderr (unknown_help_topic e arg) v\<rparr>\<rparr>"
    by (simp add: help_cmd_one_arg)
next
  assume a: "args = [''help'', arg] \<and> find (\<lambda>c. Name c = arg) (commands e) = Some c"
  then have "main e args p = help_cmd e [arg] (p\<lparr>vars := v\<rparr>)"
    using main_help [OF assms, of "[arg]"] by simp
  with a show "main e args p
      = \<lparr>events = [],
         ending = (if snd (template e helpTemplate (OneCommand c)) then Returned else Panic),
         final = p\<lparr>vars := Fprintf os_Stdout
                   (fst (template e helpTemplate (OneCommand c))) v\<rparr>\<rparr>"
    by (simp add: help_cmd_one_arg)
qed

theorem main_shutdown_paths_witness:
  "initialize (example_env [runnable ''build'']) (vars example_proc) = (vars example_proc, True)
   \<and> [''build'', ''x''] \<noteq> [] \<and> hd [''build'', ''x''] \<noteq> ''help''
   \<and> count_list (events (main (example_env [runnable ''build'']) [''build'', ''x''] example_proc))
        Shutdown = 1
   \<and> ending (main (example_env [runnable ''build'']) [''build'', ''x''] example_proc) = OsExit 1
   \<and> ending (main (example_env [runnable ''build'']) [] example_proc) = OsExit 2
   \<and> events (main (example_env [runnable ''build'']) [] example_proc) = []
   \<and> ending (main (example_env [runnable ''build'']) [''help''] example_proc) = Returned
   \<and> (2::nat) \<le> length (tl [''help'', ''a'', ''b''])
   \<and> ending (main (example_env [runnable ''build'']) [''help'', ''a'', ''b''] example_proc) = OsExit 2
   \<and> find (\<lambda>c. Name c = ''zzz'') (commands (example_env [runnable ''build''])) = None
   \<and> ending (main (example_env [runnable ''build'']) [''help'', ''zzz''] example_proc) = OsExit 2
   \<and> find (\<lambda>c. Name c = ''build'') (commands (example_env [runnable ''build'']))
       = Some (runnable ''build'')
   \<and> ending (main (example_env [runnable ''build'']) [''help'', ''build''] example_proc) = Returned
   \<and> events (main (example_env [runnable ''build'']) [''help'', ''build''] example_proc) = []"
proof -
  let ?e = "example_env [runnable ''build'']"
  have h: "initialize ?e (vars example_proc) = (vars example_proc, True)"
    by (simp add: example_env_def)
  have n: "Name (runnable ''build'') = ''build''"
    by (simp add: Name_takeWhile runnable_def)
  have f0: "find (\<lambda>c. Name c = ''zzz'') (commands ?e) = None"
    by (simp add: example_env_def n)
  have f1: "find (\<lambda>c. Name c = ''build'') (commands ?e) = Some (runnable ''build'')"
    by (simp add: example_env_def n)
  have t: "template ?e = (\<lambda>text data. (text, True))"
    by (simp add: example_env_def)
  have "count_list (events (main ?e [''build'', ''x''] example_proc)) Shutdown = 1"
    using main_shutdown_paths [OF h, of "[''build'', ''x'']"] by simp
  moreover have "ending (main ?e [''build'', ''x''] example_proc) = OsExit 1"
    by (simp add: main_def Name_takeWhile exit_def setExitStatus_def cmd_text.truncate_def example_defs)
  moreover have "main ?e [] example_proc
      = \<lparr>events = [], ending = OsExit 2,
         final = example_proc\<lparr>vars := Fprintf os_Stderr (usageTemplate ?e) (vars example_proc)\<rparr>\<rparr>"
    using main_shutdown_paths [OF h, of "[]"] by (simp add: t)
  moreover have "main ?e [''help''] example_proc
      = \<lparr>events = [], ending = Returned,
         final = example_proc\<lparr>vars := Fprintf os_Stdout (usageTemplate ?e) (vars example_proc)\<rparr>\<rparr>"
    using main_shutdown_paths [OF h, of "[''help'']"] by (simp add: t)
  moreover have "main ?e [''help'', ''a'', ''b''] example_proc
      = \<lparr>events = [], ending = OsExit 2,
         final = example_proc\<lparr>vars := Fprintf os_Stderr too_many_arguments (vars example_proc)\<rparr>\<rparr>"
    using main_shutdown_paths [OF h, of "[''help'', ''a'', ''b'']"] by simp
  moreover have "main ?e [''help'', ''zzz''] example_proc
      = \<lparr>events = [], ending = OsExit 2,
         final = example_proc\<lparr>vars := Fprintf os_Stderr (unknown_help_topic ?e ''zzz'')
                   (vars example_proc)\<rparr>\<rparr>"
    using main_shutdown_paths [OF h, of "[''help'', ''zzz'']" "''zzz''"] f0 by simp
  moreover have "main ?e [''help'', ''build''] example_proc
      = \<lparr>events = [], ending = Returned,
         final = example_proc\<lparr>vars := Fprintf os_Stdout helpTemplate (vars example_proc)\<rparr>\<rparr>"
    using main_shutdown_paths [OF h, of "[''help'', ''build'']" "''build''" "runnable ''build''"] f1
    by (simp add: t)
  ultimately show ?thesis using h f0 f1 by simp
qed

text \<open>
  Claim C7. After a successful initialization, \<open>help\<close> without further arguments
  writes what the usage template renders for the whole registry, in its order, to
  standard output and nothing else, calls no handler, and the process ends with
  status 0 (by \<^verbatim>\<open>main\<close> returning), provided the template renders without error. With
  two or more further arguments it writes \<open>usage: gpm help command\<close> and
  \<open>Too many arguments given.\<close> to standard error, calls no handler, and ends the process
  with \<^verbatim>\<open>os.Exit(2)\<close>.
\<close>

theorem help_usage_and_too_many:
  assumes "initialize e (vars p) = (v, True)"
  shows
    "(template e (usageTemplate e) (AllCommands (commands e)) = (out, True) \<longrightarrow>
        vars (final (main e [''help''] p)) = v\<lparr>Stdout := Stdout v @ out\<rparr>
        \<and> ending (main e [''help''] p) = Returned
        \<and> exit_code (ending (main e [''help''] p)) = 0
        \<and> events (main e [''help''] p) = [])
     \<and> (2 \<le> length rest \<longrightarrow>
        vars (final (main e (''help'' # rest) p))
          = v\<lparr>Stderr := Stderr v
               @ ''usage: gpm help command\<newline>\<newline>Too many arguments given.\<newline>''\<rparr>
        \<and> ending (main e (''help'' # rest) p) = OsExit 2
        \<and> exit_code (ending (main e (''help'' # rest) p)) = 2
        \<and> events (main e (''help'' # rest) p) = [])"
proof (intro conjI impI)
  assume t: "template e (usageTemplate e) (AllCommands (commands e)) = (out, True)"
  have m: "main e [''help''] p = help_cmd e [] (p\<lparr>vars := v\<rparr>)"
    using assms by (rule main_help)
  show "vars (final (main e [''help''] p)) = v\<lparr>Stdout := Stdout v @ out\<rparr>"
    by (simp add: m help_cmd_def printUsage_def tmpl_eq t)
  show "ending (main e [''help''] p) = Returned"
    by (simp add: m help_cmd_def printUsage_def tmpl_eq t)
  then show "exit_code (ending (main e [''help''] p)) = 0" by simp
  show "events (main e [''help''] p) = []"
    by (simp add: m help_cmd_run)
next
  assume "2 \<le> length rest"
  then have l: "length rest \<noteq> 0 \<and> length rest \<noteq> 1" by (cases rest) auto
  have m: "main e (''help'' # rest) p = help_cmd e rest (p\<lparr>vars := v\<rparr>)"
    using assms by (rule main_help)
  show "vars (final (main e (''help'' # rest) p))
      = v\<lparr>Stderr := Stderr v @ ''usage: gpm help command\<newline>\<newline>Too many arguments given.\<newline>''\<rparr>"
    using l by (simp add: m help_cmd_def)
  show "ending (main e (''help'' # rest) p) = OsExit 2"
    using l by (simp add: m help_cmd_def)
  then show "exit_code (ending (main e (''help'' # rest) p)) = 2" by simp
  show "events (main e (''help'' # rest) p) = []"
    by (simp add: m help_cmd_run)
qed

theorem help_usage_and_too_many_witness:
  "initialize (example_env [runnable ''build'']) (vars example_proc) = (vars example_proc, True)
   \<and> template (example_env [runnable ''build'']) (usageTemplate (example_env [runnable ''build'']))
        (AllCommands (commands (example_env [runnable ''build'']))) = (''usage'', True)
   \<and> Stdout (vars (final (main (example_env [runnable ''build'']) [''help''] example_proc))) = ''usage''
   \<and> exit_code (ending (main (example_env [runnable ''build'']) [''help''] example_proc)) = 0
   \<and> (2::nat) \<le> length [''a'', ''b'']
   \<and> exit_code (ending (main (example_env [runnable ''build'']) [''help'', ''a'', ''b''] example_proc)) = 2
   \<and> events (main (example_env [runnable ''build'']) [''help'', ''a'', ''b''] example_proc) = []"
proof -
  let ?e = "example_env [runnable ''build'']"
  have h: "initialize ?e (vars example_proc) = (vars example_proc, True)"
    by (simp add: example_env_def)
  have t: "template ?e (usageTemplate ?e) (AllCommands (commands ?e)) = (''usage'', True)"
    by (simp add: example_env_def)
  have l: "(2::nat) \<le> length [''a'', ''b'']" by simp
  note inst = help_usage_and_too_many [OF h, of "''usage''" "[''a'', ''b'']"]
  from inst t have "Stdout (vars (final (main ?e [''help''] example_proc))) = ''usage''"
    by (simp add: example_proc_def atexit_def init_proc_def init_vars_def)
  moreover from inst t have "exit_code (ending (main ?e [''help''] example_proc)) = 0"
    by simp
  moreover from inst l have "exit_code (ending (main ?e [''help'', ''a'', ''b''] example_proc)) = 2"
    by simp
  moreover from inst l have "events (main ?e [''help'', ''a'', ''b''] example_proc) = []"
    by simp
  ultimately show ?thesis using h t l by simp
qed

text \<open>
  Claim C9, as stated, at two registries. In the first, a command without handler
  shares its name \<open>build\<close> with a runnable command registered after it: the loop of
  \<^verbatim>\<open>main\<close> passes over the first and calls the handler of the second. In the second, a
  command without handler is named \<open>help\<close>: \<^verbatim>\<open>main\<close> takes the help path, nothing is
  written to standard error and the status stays 0.
\<close>

theorem handlerless_command_counterexample:
  "Run (topic ''build'') = None \<and> Name (topic ''build'') = ''build''
   \<and> events (main (example_env [topic ''build'', runnable ''build'']) [''build''] example_proc)
       = [Handler 1 [], Shutdown, Cleanup 0]
   \<and> Run (topic ''help'') = None \<and> Name (topic ''help'') = ''help''
   \<and> events (main (example_env [topic ''help'']) [''help''] example_proc) = []
   \<and> Stderr (vars (final (main (example_env [topic ''help'']) [''help''] example_proc))) = []
   \<and> exitStatus (vars (final (main (example_env [topic ''help'']) [''help''] example_proc))) = 0"
  by (simp add: main_def Name_takeWhile exit_def help_cmd_def printUsage_def tmpl_eq
      setExitStatus_def cmd_text.truncate_def example_defs)

text \<open>
  Claim C9, amended. In a registry whose command names are pairwise distinct, for every
  registered command without handler whose name is not \<open>help\<close>: with its name as first
  argument \<^verbatim>\<open>main\<close> calls no handler and takes the unknown-subcommand path (the error
  message goes to standard error, the status is raised to 2, then \<^verbatim>\<open>exit()\<close> runs the
  cleanup actions and ends the process with the status); with \<open>help\<close> and its name,
  \<^verbatim>\<open>help\<close> finds the command and writes what the help template renders for it to
  standard output, and the process ends with status 0, provided the template renders
  without error.
\<close>

theorem handlerless_command:
  assumes "initialize e (vars p) = (v, True)"
    and "distinct (map Name (commands e))"
    and "cmd \<in> set (commands e)"
    and "Run cmd = None"
    and "Name cmd \<noteq> ''help''"
  shows
    "events (main e (Name cmd # rest) p) = Shutdown # map Cleanup [0..<length (atexitFuncs p)]
     \<and> vars (final (main e (Name cmd # rest) p))
       = fold (\<lambda>f. f) (atexitFuncs p)
           (setExitStatus 2 (Fprintf os_Stderr (unknown_subcommand e (Name cmd)) v))
     \<and> ending (main e (Name cmd # rest) p)
       = OsExit (exitStatus (vars (final (main e (Name cmd # rest) p))))
     \<and> (template e helpTemplate (OneCommand cmd) = (out, True) \<longrightarrow>
          events (main e [''help'', Name cmd] p) = []
          \<and> vars (final (main e [''help'', Name cmd] p)) = v\<lparr>Stdout := Stdout v @ out\<rparr>
          \<and> ending (main e [''help'', Name cmd] p) = Returned
          \<and> exit_code (ending (main e [''help'', Name cmd] p)) = 0)"
proof (intro conjI impI)
  let ?q = "p\<lparr>vars := setExitStatus 2 (Fprintf os_Stderr (unknown_subcommand e (Name cmd)) v)\<rparr>"
  have none: "find (selects (Name cmd)) (commands e) = None"
    using assms(2,3,4) by (rule find_none_runnable)
  have "main e (Name cmd # rest) p = dispatch e (commands e) 0 (Name cmd) rest (p\<lparr>vars := v\<rparr>)"
    using main_dispatch [OF assms(1), of "Name cmd # rest"] assms(5) by simp
  then have m: "main e (Name cmd # rest) p = exit ?q"
    by (simp add: dispatch_find none)
  show "events (main e (Name cmd # rest) p) = Shutdown # map Cleanup [0..<length (atexitFuncs p)]"
    by (simp add: m exit_events)
  show "vars (final (main e (Name cmd # rest) p))
      = fold (\<lambda>f. f) (atexitFuncs p)
          (setExitStatus 2 (Fprintf os_Stderr (unknown_subcommand e (Name cmd)) v))"
    by (simp add: m exit_vars)
  show "ending (main e (Name cmd # rest) p)
      = OsExit (exitStatus (vars (final (main e (Name cmd # rest) p))))"
    using exit_ending [of ?q] by (simp only: m)
next
  assume t: "template e helpTemplate (OneCommand cmd) = (out, True)"
  have f: "find (\<lambda>c. Name c = Name cmd) (commands e) = Some cmd"
    using assms(2,3) by (rule find_distinct)
  have "main e [''help'', Name cmd] p = help_cmd e [Name cmd] (p\<lparr>vars := v\<rparr>)"
    using assms(1) by (rule main_help)
  then have m: "main e [''help'', Name cmd] p = help_topic e (commands e) (Name cmd) (p\<lparr>vars := v\<rparr>)"
    by (simp add: help_cmd_def)
  show "events (main e [''help'', Name cmd] p) = []"
    by (simp add: m help_topic_run)
  show "vars (final (main e [''help'', Name cmd] p)) = v\<lparr>Stdout := Stdout v @ out\<rparr>"
    by (simp add: m help_topic_find f t)
  show "ending (main e [''help'', Name cmd] p) = Returned"
    by (simp add: m help_topic_find f t)
  then show "exit_code (ending (main e [''help'', Name cmd] p)) = 0" by simp
qed

theorem handlerless_command_witness:
  "initialize (example_env [runnable ''build'', topic ''packages''])
       (vars example_proc) = (vars example_proc, True)
   \<and> distinct (map Name (commands (example_env [runnable ''build'', topic ''packages''])))
   \<and> topic ''packages'' \<in> set (commands (example_env [runnable ''build'', topic ''packages'']))
   \<and> Run (topic ''packages'') = None
   \<and> Name (topic ''packages'') \<noteq> ''help''
   \<and> template (example_env [runnable ''build'', topic ''packages'']) helpTemplate
        (OneCommand (topic ''packages'')) = (helpTemplate, True)
   \<and> events (main (example_env [runnable ''build'', topic ''packages'']) [''packages''] example_proc)
       = [Shutdown, Cleanup 0]
   \<and> exit_code (ending (main (example_env [runnable ''build'', topic ''packages''])
        [''packages''] example_proc)) = 2
   \<and> Stdout (vars (final (main (example_env [runnable ''build'', topic ''packages''])
        [''help'', ''packages''] example_proc))) = helpTemplate"
proof -
  let ?e = "example_env [runnable ''build'', topic ''packages'']"
  have n: "Name (topic ''packages'') = ''packages''" "Name (runnable ''build'') = ''build''"
    by (simp_all add: Name_takeWhile topic_def runnable_def)
  have h1: "initialize ?e (vars example_proc) = (vars example_proc, True)"
    by (simp add: example_env_def)
  have h2: "distinct (map Name (commands ?e))"
    by (simp add: example_env_def n)
  have h3: "topic ''packages'' \<in> set (commands ?e)"
    by (simp add: example_env_def)
  have h4: "Run (topic ''packages'') = None"
    by (simp add: topic_def)
  have h5: "Name (topic ''packages'') \<noteq> ''help''"
    by (simp add: n)
  have t: "template ?e helpTemplate (OneCommand (topic ''packages'')) = (helpTemplate, True)"
    by (simp add: example_env_def)
  note inst = handlerless_command [OF h1 h2 h3 h4 h5, of "[]" helpTemplate]
  have a: "atexitFuncs example_proc = [log_cleanup]"
    by (simp add: example_proc_def atexit_def init_proc_def)
  from inst have "events (main ?e [''packages''] example_proc) = [Shutdown, Cleanup 0]"
    by (simp add: n a)
  moreover from inst
  have "exit_code (ending (main ?e [''packages''] example_proc)) = 2"
    by (simp add: n a setExitStatus_def log_cleanup_def example_proc_def atexit_def
        init_proc_def init_vars_def)
  moreover from inst t
  have "Stdout (vars (final (main ?e [''help'', ''packages''] example_proc))) = helpTemplate"
    by (simp add: n example_proc_def atexit_def init_proc_def init_vars_def)
  ultimately show ?thesis using h1 h2 h3 h4 h5 t by simp
qed

section \<open>Properties of capitalize\<close>

lemma of_char_of_small: "n < 256 \<Longrightarrow> (of_char (char_of n) :: nat) = n"
  by (simp add: of_char_of)

lemma mod_block: "k < m \<Longrightarrow> (m * q + k) mod m = (k::nat)"
  by simp

lemma Decode_width:
  assumes "s \<noteq> []"
  shows "1 \<le> snd (DecodeRuneInString s) \<and> snd (DecodeRuneInString s) \<le> length s"
proof -
  from assms have l: "1 \<le> length s" by (cases s) simp_all
  show ?thesis
    using l by (auto simp: DecodeRuneInString_def Let_def)
qed

lemma Decode_1:
  assumes "r \<le> 0x7F"
  shows "DecodeRuneInString (rune_string r @ rest) = (r, length (rune_string r))"
proof -
  from assms have "(of_char (char_of r) :: nat) = r" by (simp add: of_char_of_small)
  with assms show ?thesis
    by (simp add: DecodeRuneInString_def rune_string_def Let_def)
qed

lemma Decode_2:
  assumes "0x7F < r" "r \<le> 0x7FF"
  shows "DecodeRuneInString (rune_string r @ rest) = (r, length (rune_string r))"
proof -
  define a b where "a = r div 0x40" and "b = r mod 0x40"
  have r: "r = a * 0x40 + b" and b: "b < 0x40" by (simp_all add: a_def b_def)
  from assms r b have a: "2 \<le> a" "a < 0x20" by linarith+
  have "0xC0 + a < 256" using a by linarith
  then have s0: "(of_char (char_of (0xC0 + a)) :: nat) = 0xC0 + a"
    by (rule of_char_of_small)
  have "0x80 + b < 256" using b by linarith
  then have s1: "(of_char (char_of (0x80 + b)) :: nat) = 0x80 + b"
    by (rule of_char_of_small)
  have m0: "(0xC0 + a) mod 0x20 = a" using mod_block [of a "0x20" 6] a by simp
  have m1: "(0x80 + b) mod 0x40 = b" using mod_block [of b "0x40" 2] b by simp
  have rs: "rune_string r = [char_of (0xC0 + a), char_of (0x80 + b)]"
    using assms by (simp add: rune_string_def a_def b_def)
  show ?thesis
    unfolding rs using a b
    by (simp add: DecodeRuneInString_def Let_def s0 s1 m0 m1 r)
qed


lemma digits3:
  fixes r :: nat
  shows "r = (r div 0x1000) * 0x1000 + ((r div 0x40) mod 0x40) * 0x40 + r mod 0x40"
proof -
  have "r div 0x1000 = (r div 0x40) div 0x40" by (simp add: div_mult2_eq)
  moreover have "r div 0x40 = ((r div 0x40) div 0x40) * 0x40 + (r div 0x40) mod 0x40" by simp
  moreover have "r = (r div 0x40) * 0x40 + r mod 0x40" by simp
  ultimately show ?thesis by linarith
qed

lemma Decode_3:
  assumes "0x7FF < r" "r \<le> 0xFFFF" "\<not> (0xD800 \<le> r \<and> r \<le> 0xDFFF)"
  shows "DecodeRuneInString (rune_string r @ rest) = (r, length (rune_string r))"
proof -
  define a b c where "a = r div 0x1000" and "b = (r div 0x40) mod 0x40" and "c = r mod 0x40"
  have r: "r = a * 0x1000 + b * 0x40 + c"
    unfolding a_def b_def c_def by (rule digits3)
  have b: "b < 0x40" and c: "c < 0x40" by (simp_all add: b_def c_def)
  from assms r b c have a: "a < 0x10" by linarith
  have a0: "a = 0 \<Longrightarrow> 0x20 \<le> b" using assms r b c by linarith
  have a13: "a = 13 \<Longrightarrow> b < 0x20" using assms r b c by linarith
  have "0xE0 + a < 256" using a by linarith
  then have s0: "(of_char (char_of (0xE0 + a)) :: nat) = 0xE0 + a"
    by (rule of_char_of_small)
  have "0x80 + b < 256" using b by linarith
  then have s1: "(of_char (char_of (0x80 + b)) :: nat) = 0x80 + b"
    by (rule of_char_of_small)
  have "0x80 + c < 256" using c by linarith
  then have s2: "(of_char (char_of (0x80 + c)) :: nat) = 0x80 + c"
    by (rule of_char_of_small)
  have m0: "(0xE0 + a) mod 0x10 = a" using mod_block [of a "0x10" 14] a by simp
  have m1: "(0x80 + b) mod 0x40 = b" using mod_block [of b "0x40" 2] b by simp
  have m2: "(0x80 + c) mod 0x40 = c" using mod_block [of c "0x40" 2] c by simp
  have rs: "rune_string r = [char_of (0xE0 + a), char_of (0x80 + b), char_of (0x80 + c)]"
  proof (cases "r < 0xD800")
    case True
    with assms(1,2) show ?thesis by (simp add: rune_string_def a_def b_def c_def)
  next
    case False
    with assms(3) have "0xDFFF < r" by simp
    with assms(1,2) show ?thesis by (simp add: rune_string_def a_def b_def c_def)
  qed
  consider "a = 0" | "a = 13" | "a \<noteq> 0" "a \<noteq> 13" by blast
  then show ?thesis
  proof cases
    case 1
    with a0 have "0x20 \<le> b" by simp
    with 1 b c show ?thesis
      unfolding rs by (simp add: DecodeRuneInString_def Let_def s0 s1 s2 m0 m1 m2 r)
  next
    case 2
    with a13 have "b < 0x20" by simp
    with 2 c show ?thesis
      unfolding rs by (simp add: DecodeRuneInString_def Let_def s0 s1 s2 m0 m1 m2 r)
  next
    case 3
    with a b c show ?thesis
      unfolding rs by (simp add: DecodeRuneInString_def Let_def s0 s1 s2 m0 m1 m2 r)
  qed
qed

lemma digits4:
  fixes r :: nat
  shows "r = (r div 0x40000) * 0x40000 + ((r div 0x1000) mod 0x40) * 0x1000
           + ((r div 0x40) mod 0x40) * 0x40 + r mod 0x40"
proof -
  have "r div 0x1000 = (r div 0x40) div 0x40" by (simp add: div_mult2_eq)
  moreover have "r div 0x40000 = (r div 0x1000) div 0x40" by (simp add: div_mult2_eq)
  moreover have "r div 0x1000 = ((r div 0x1000) div 0x40) * 0x40 + (r div 0x1000) mod 0x40" by simp
  moreover have "r div 0x40 = ((r div 0x40) div 0x40) * 0x40 + (r div 0x40) mod 0x40" by simp
  moreover have "r = (r div 0x40) * 0x40 + r mod 0x40" by simp
  ultimately show ?thesis by linarith
qed

lemma Decode_4:
  assumes "0xFFFF < r" "r \<le> 0x10FFFF"
  shows "DecodeRuneInString (rune_string r @ rest) = (r, length (rune_string r))"
proof -
  define a b c d where "a = r div 0x40000" and "b = (r div 0x1000) mod 0x40"
    and "c = (r div 0x40) mod 0x40" and "d = r mod 0x40"
  have r: "r = a * 0x40000 + b * 0x1000 + c * 0x40 + d"
    unfolding a_def b_def c_def d_def by (rule digits4)
  have b: "b < 0x40" and c: "c < 0x40" and d: "d < 0x40" by (simp_all add: b_def c_def d_def)
  from assms r b c d have a: "a \<le> 4" by linarith
  have a0: "a = 0 \<Longrightarrow> 0x10 \<le> b" using assms r b c d by linarith
  have a4: "a = 4 \<Longrightarrow> b < 0x10" using assms r b c d by linarith
  have "0xF0 + a < 256" using a by linarith
  then have s0: "(of_char (char_of (0xF0 + a)) :: nat) = 0xF0 + a"
    by (rule of_char_of_small)
  have "0x80 + b < 256" using b by linarith
  then have s1: "(of_char (char_of (0x80 + b)) :: nat) = 0x80 + b"
    by (rule of_char_of_small)
  have "0x80 + c < 256" using c by linarith
  then have s2: "(of_char (char_of (0x80 + c)) :: nat) = 0x80 + c"
    by (rule of_char_of_small)
  have "0x80 + d < 256" using d by linarith
  then have s3: "(of_char (char_of (0x80 + d)) :: nat) = 0x80 + d"
    by (rule of_char_of_small)
  have m0: "(0xF0 + a) mod 0x08 = a" using mod_block [of a "0x08" 30] a by simp
  have m1: "(0x80 + b) mod 0x40 = b" using mod_block [of b "0x40" 2] b by simp
  have m2: "(0x80 + c) mod 0x40 = c" using mod_block [of c "0x40" 2] c by simp
  have m3: "(0x80 + d) mod 0x40 = d" using mod_block [of d "0x40" 2] d by simp
  have rs: "rune_string r
      = [char_of (0xF0 + a), char_of (0x80 + b), char_of (0x80 + c), char_of (0x80 + d)]"
    using assms by (simp add: rune_string_def a_def b_def c_def d_def)
  consider "a = 0" | "a = 4" | "a \<noteq> 0" "a \<noteq> 4" by blast
  then show ?thesis
  proof cases
    case 1
    with a0 have "0x10 \<le> b" by simp
    with 1 b c d show ?thesis
      unfolding rs by (simp add: DecodeRuneInString_def Let_def s0 s1 s2 s3 m0 m1 m2 m3 r)
  next
    case 2
    with a4 have "b < 0x10" by simp
    with 2 c d show ?thesis
      unfolding rs by (simp add: DecodeRuneInString_def Let_def s0 s1 s2 s3 m0 m1 m2 m3 r)
  next
    case 3
    with a b c d show ?thesis
      unfolding rs by (simp add: DecodeRuneInString_def Let_def s0 s1 s2 s3 m0 m1 m2 m3 r)
  qed
qed

lemma Decode_rune_string:
  assumes "r \<le> 0x10FFFF" "\<not> (0xD800 \<le> r \<and> r \<le> 0xDFFF)"
  shows "DecodeRuneInString (rune_string r @ rest) = (r, length (rune_string r))"
proof -
  consider "r \<le> 0x7F" | "0x7F < r" "r \<le> 0x7FF" | "0x7FF < r" "r \<le> 0xFFFF" | "0xFFFF < r"
    by linarith
  then show ?thesis
  proof cases
    case 1 then show ?thesis by (rule Decode_1)
  next
    case 2 then show ?thesis by (rule Decode_2)
  next
    case 3 then show ?thesis using assms(2) by (rule Decode_3)
  next
    case 4 then show ?thesis using assms(1) by (rule Decode_4)
  qed
qed

lemma rune_string_nonempty: "rune_string r \<noteq> []"
  by (simp add: rune_string_def)

lemma capitalize_go: "capitalize t ''go'' = ''Go''"
  by (simp add: capitalize_def DecodeRuneInString_def ToTitle_def rune_string_def Let_def
      char_of_eq_iff)

lemma capitalize_decoded:
  "capitalize t s
     = (if s = [] then []
        else rune_string (ToTitle t (fst (DecodeRuneInString s))) @ drop (snd (DecodeRuneInString s)) s)"
  by (simp add: capitalize_def split: prod.split)

lemma capitalize_rune_string:
  assumes "r \<le> 0x10FFFF" "\<not> (0xD800 \<le> r \<and> r \<le> 0xDFFF)"
  shows "capitalize t (rune_string r @ rest) = rune_string (ToTitle t r) @ rest"
  using Decode_rune_string [OF assms, of rest]
  by (simp add: capitalize_decoded rune_string_nonempty)

lemma capitalize_invalid_first_byte:
  "capitalize [] [CHR 0xFF, CHR ''a''] = [CHR 0xEF, CHR 0xBF, CHR 0xBD, CHR ''a'']"
  by (simp add: capitalize_def DecodeRuneInString_def ToTitle_def to_case_def rune_string_def
      Let_def RuneError_def TitleCase_def MaxCase_def char_of_eq_iff)


lemma find_unique:
  assumes "x \<in> set xs" "P x" "\<forall>y\<in>set xs. P y \<longrightarrow> y = x"
  shows "find P xs = Some x"
  using assms
proof (induction xs)
  case Nil
  then show ?case by simp
next
  case (Cons a xs)
  show ?case
  proof (cases "P a")
    case True
    with Cons.prems(3) have "a = x" by simp
    with True show ?thesis by simp
  next
    case False
    with Cons.prems(1,2) have "x \<in> set xs" by auto
    moreover from Cons.prems(3) have "\<forall>y\<in>set xs. P y \<longrightarrow> y = x" by simp
    ultimately have "find P xs = Some x" using Cons.IH Cons.prems(2) by blast
    with False show ?thesis by simp
  qed
qed

lemma to_case_entry:
  assumes "cr \<in> set tab" "Lo cr \<le> r" "r \<le> Hi cr"
    and "\<forall>x\<in>set tab. Lo x \<le> r \<and> r \<le> Hi x \<longrightarrow> x = cr"
  shows "to_case TitleCase r tab
     = (if snd (snd (Delta cr)) > int MaxRune then Lo cr + (r - Lo cr) div 2 * 2
        else nat (int r + snd (snd (Delta cr))))"
proof -
  have "(\<lambda>x. Lo x \<le> r \<and> r \<le> Hi x) cr" using assms(2,3) by simp
  with assms(1) have "find (\<lambda>x. Lo x \<le> r \<and> r \<le> Hi x) tab = Some cr"
    using assms(4) by (rule find_unique)
  moreover have "delta_at (Delta cr) TitleCase = snd (snd (Delta cr))"
    by (cases "Delta cr") (simp add: TitleCase_def)
  ultimately show ?thesis
    by (simp add: to_case_def Let_def TitleCase_def MaxCase_def)
qed


lemma to_case_no_entry:
  assumes "\<forall>x\<in>set tab. \<not> (Lo x \<le> r \<and> r \<le> Hi x)"
  shows "to_case TitleCase r tab = r"
proof -
  have "find (\<lambda>x. Lo x \<le> r \<and> r \<le> Hi x) tab = None"
    unfolding find_None_iff using assms by blast
  then show ?thesis by (simp add: to_case_def TitleCase_def MaxCase_def)
qed

lemma ToTitle_Latin:
  "ToTitle CaseRanges_Latin 0xE9 = 0xC9" "ToTitle CaseRanges_Latin 0x1C6 = 0x1C5"
  "ToUpper CaseRanges_Latin 0x1C6 = 0x1C4" "ToTitle CaseRanges_Latin 0x101 = 0x100"
  by (simp_all add: ToTitle_def ToUpper_def to_case_def CaseRanges_Latin_def Let_def
      TitleCase_def UpperCase_def MaxCase_def MaxRune_def UpperLower_def)

lemma rune_string_examples:
  "rune_string 0xE9 = [CHR 0xC3, CHR 0xA9]" "rune_string 0xC9 = [CHR 0xC3, CHR 0x89]"
  "rune_string 0x1C6 = [CHR 0xC7, CHR 0x86]" "rune_string 0x1C5 = [CHR 0xC7, CHR 0x85]"
  "rune_string 0x1C4 = [CHR 0xC7, CHR 0x84]"
  by (simp_all add: rune_string_def char_of_eq_iff)


lemma div_mod_block:
  fixes a b :: nat
  assumes "b < m"
  shows "(a * m + b) div m = a" and "(a * m + b) mod m = b"
  using assms by simp_all

lemma encoding_1:
  assumes "(of_char c0 :: nat) < 0x80"
  shows "rune_string (of_char c0) = [c0]"
  using assms by (simp add: rune_string_def)

lemma encoding_2:
  fixes s0 s1 :: nat
  assumes s0: "s0 = of_char c0" and s1: "s1 = of_char c1"
    and r0: "0xC2 \<le> s0" "s0 < 0xE0" and r1: "0x80 \<le> s1" "s1 \<le> 0xBF"
  shows "\<exists>r. r \<le> 0x10FFFF \<and> \<not> (0xD800 \<le> r \<and> r \<le> 0xDFFF) \<and> rune_string r = [c0, c1]"
proof -
  define a b where "a = s0 - 0xC0" and "b = s1 - 0x80"
  have e0: "s0 = 0xC0 + a" and e1: "s1 = 0x80 + b" using r0 r1 by (simp_all add: a_def b_def)
  have a: "2 \<le> a" "a < 0x20" and b: "b < 0x40" using r0 r1 by (simp_all add: a_def b_def)
  define r where "r = a * 0x40 + b"
  have d: "r div 0x40 = a" "r mod 0x40 = b"
    unfolding r_def using b by (rule div_mod_block)+
  have lo: "0x7F < r" and hi: "r \<le> 0x7FF" using a b by (simp_all add: r_def)
  have c0: "char_of (0xC0 + a) = c0" by (simp add: e0 [symmetric] s0)
  have c1: "char_of (0x80 + b) = c1" by (simp add: e1 [symmetric] s1)
  have "rune_string r = [c0, c1]"
    using lo hi by (simp add: rune_string_def d c0 c1)
  moreover have "r \<le> 0x10FFFF \<and> \<not> (0xD800 \<le> r \<and> r \<le> 0xDFFF)" using hi by simp
  ultimately show ?thesis by blast
qed


lemma encoding_3:
  fixes s0 s1 s2 :: nat
  assumes s0: "s0 = of_char c0" and s1: "s1 = of_char c1" and s2: "s2 = of_char c2"
    and r0: "0xE0 \<le> s0" "s0 < 0xF0"
    and r1: "(if s0 = 0xE0 then 0xA0 else 0x80) \<le> s1" "s1 \<le> (if s0 = 0xED then 0x9F else 0xBF)"
    and r2: "0x80 \<le> s2" "s2 \<le> 0xBF"
  shows "\<exists>r. r \<le> 0x10FFFF \<and> \<not> (0xD800 \<le> r \<and> r \<le> 0xDFFF) \<and> rune_string r = [c0, c1, c2]"
proof -
  define a b c where "a = s0 - 0xE0" and "b = s1 - 0x80" and "c = s2 - 0x80"
  have s1lo: "0x80 \<le> s1" using r1(1) by (simp split: if_splits)
  have s1hi: "s1 \<le> 0xBF" using r1(2) by (simp split: if_splits)
  have e0: "s0 = 0xE0 + a" and e1: "s1 = 0x80 + b" and e2: "s2 = 0x80 + c"
    using r0 s1lo r2 by (simp_all add: a_def b_def c_def)
  have a: "a < 0x10" and b: "b < 0x40" and c: "c < 0x40"
    using r0 s1hi s1lo r2 by (simp_all add: a_def b_def c_def)
  have a0: "a = 0 \<Longrightarrow> 0x20 \<le> b" using r1(1) e0 e1 by (simp split: if_splits)
  have a13: "a = 13 \<Longrightarrow> b < 0x20" using r1(2) e0 e1 by (simp split: if_splits)
  define r where "r = a * 0x1000 + b * 0x40 + c"
  have r64: "r = (a * 0x40 + b) * 0x40 + c" by (simp add: r_def)
  have d1: "r div 0x40 = a * 0x40 + b" and d2: "r mod 0x40 = c"
    unfolding r64 using c by (rule div_mod_block)+
  have d3: "(r div 0x40) mod 0x40 = b" and d4': "(r div 0x40) div 0x40 = a"
    unfolding d1 using b by (rule div_mod_block)+
  have "r div 0x1000 = (r div 0x40) div 0x40" by (simp add: div_mult2_eq)
  with d4' have d4: "r div 0x1000 = a" by simp
  have lo: "0x7FF < r"
  proof (cases "a = 0")
    case True
    with a0 have "0x20 \<le> b" by simp
    then show ?thesis by (simp add: r_def)
  next
    case False
    then have "1 \<le> a" by simp
    then show ?thesis by (simp add: r_def)
  qed
  have hi: "r \<le> 0xFFFF" using a b c by (simp add: r_def)
  have ns: "\<not> (0xD800 \<le> r \<and> r \<le> 0xDFFF)"
  proof (cases "a = 13")
    case True
    with a13 have "b < 0x20" by simp
    with True c show ?thesis by (simp add: r_def)
  next
    case False
    then have "a < 13 \<or> 13 < a" by auto
    then show ?thesis using b c by (auto simp: r_def)
  qed
  have c0: "char_of (0xE0 + a) = c0" by (simp add: e0 [symmetric] s0)
  have c1: "char_of (0x80 + b) = c1" by (simp add: e1 [symmetric] s1)
  have c2: "char_of (0x80 + c) = c2" by (simp add: e2 [symmetric] s2)
  have "rune_string r = [c0, c1, c2]"
  proof (cases "r < 0xD800")
    case True
    with lo hi show ?thesis by (simp add: rune_string_def d2 d3 d4 c0 c1 c2)
  next
    case False
    with ns have "0xDFFF < r" by simp
    with lo hi show ?thesis by (simp add: rune_string_def d2 d3 d4 c0 c1 c2)
  qed
  moreover have "r \<le> 0x10FFFF" using hi by simp
  ultimately show ?thesis using ns by blast
qed

lemma encoding_4:
  fixes s0 s1 s2 s3 :: nat
  assumes s0: "s0 = of_char c0" and s1: "s1 = of_char c1" and s2: "s2 = of_char c2"
    and s3: "s3 = of_char c3"
    and r0: "0xF0 \<le> s0" "s0 \<le> 0xF4"
    and r1: "(if s0 = 0xF0 then 0x90 else 0x80) \<le> s1" "s1 \<le> (if s0 = 0xF4 then 0x8F else 0xBF)"
    and r2: "0x80 \<le> s2" "s2 \<le> 0xBF" and r3: "0x80 \<le> s3" "s3 \<le> 0xBF"
  shows "\<exists>r. r \<le> 0x10FFFF \<and> \<not> (0xD800 \<le> r \<and> r \<le> 0xDFFF) \<and> rune_string r = [c0, c1, c2, c3]"
proof -
  define a b c d where "a = s0 - 0xF0" and "b = s1 - 0x80" and "c = s2 - 0x80" and "d = s3 - 0x80"
  have s1lo: "0x80 \<le> s1" using r1(1) by (simp split: if_splits)
  have s1hi: "s1 \<le> 0xBF" using r1(2) by (simp split: if_splits)
  have e0: "s0 = 0xF0 + a" and e1: "s1 = 0x80 + b" and e2: "s2 = 0x80 + c" and e3: "s3 = 0x80 + d"
    using r0 s1lo r2 r3 by (simp_all add: a_def b_def c_def d_def)
  have a: "a \<le> 4" and b: "b < 0x40" and c: "c < 0x40" and d: "d < 0x40"
    using r0 s1hi s1lo r2 r3 by (simp_all add: a_def b_def c_def d_def)
  have a0: "a = 0 \<Longrightarrow> 0x10 \<le> b" using r1(1) e0 e1 by (simp split: if_splits)
  have a4: "a = 4 \<Longrightarrow> b < 0x10" using r1(2) e0 e1 by (simp split: if_splits)
  define r where "r = a * 0x40000 + b * 0x1000 + c * 0x40 + d"
  have r64: "r = ((a * 0x40 + b) * 0x40 + c) * 0x40 + d" by (simp add: r_def)
  have d1: "r div 0x40 = (a * 0x40 + b) * 0x40 + c" and d2: "r mod 0x40 = d"
    unfolding r64 using d by (rule div_mod_block)+
  have d3: "(r div 0x40) mod 0x40 = c" and d4: "(r div 0x40) div 0x40 = a * 0x40 + b"
    unfolding d1 using c by (rule div_mod_block)+
  have d5: "((r div 0x40) div 0x40) mod 0x40 = b" and d6: "((r div 0x40) div 0x40) div 0x40 = a"
    unfolding d4 using b by (rule div_mod_block)+
  have q1: "r div 0x1000 = (r div 0x40) div 0x40" by (simp add: div_mult2_eq)
  have q2: "r div 0x40000 = ((r div 0x40) div 0x40) div 0x40" by (simp add: div_mult2_eq)
  have m1: "(r div 0x1000) mod 0x40 = b" using d5 q1 by simp
  have m2: "r div 0x40000 = a" using d6 q2 by simp
  have lo: "0xFFFF < r"
  proof (cases "a = 0")
    case True
    with a0 have "0x10 \<le> b" by simp
    then show ?thesis by (simp add: r_def)
  next
    case False
    then have "1 \<le> a" by simp
    then show ?thesis by (simp add: r_def)
  qed
  have hi: "r \<le> 0x10FFFF"
  proof (cases "a = 4")
    case True
    with a4 have "b < 0x10" by simp
    with True c d show ?thesis by (simp add: r_def)
  next
    case False
    with a have "a \<le> 3" by simp
    with b c d show ?thesis by (simp add: r_def)
  qed
  have c0: "char_of (0xF0 + a) = c0" by (simp add: e0 [symmetric] s0)
  have c1: "char_of (0x80 + b) = c1" by (simp add: e1 [symmetric] s1)
  have c2: "char_of (0x80 + c) = c2" by (simp add: e2 [symmetric] s2)
  have c3: "char_of (0x80 + d) = c3" by (simp add: e3 [symmetric] s3)
  have "rune_string r = [c0, c1, c2, c3]"
    using lo hi by (simp add: rune_string_def d2 d3 m1 m2 c0 c1 c2 c3)
  moreover have "\<not> (0xD800 \<le> r \<and> r \<le> 0xDFFF)" using lo by simp
  ultimately show ?thesis using hi by blast
qed

lemma Decode_ill_formed:
  fixes s :: string
  defines "s0 \<equiv> (of_char (s ! 0) :: nat)" and "s1 \<equiv> (of_char (s ! 1) :: nat)"
    and "s2 \<equiv> (of_char (s ! 2) :: nat)" and "s3 \<equiv> (of_char (s ! 3) :: nat)"
  defines "lo \<equiv> (if s0 = 0xE0 then 0xA0 else if s0 = 0xF0 then 0x90 else 0x80 :: nat)"
    and "hi \<equiv> (if s0 = 0xED then 0x9F else if s0 = 0xF4 then 0x8F else 0xBF :: nat)"
  assumes ne: "s \<noteq> []"
    and n1: "\<not> s0 < 0x80"
    and n2: "\<not> (0xC2 \<le> s0 \<and> s0 < 0xE0 \<and> 2 \<le> length s \<and> lo \<le> s1 \<and> s1 \<le> hi)"
    and n3: "\<not> (0xE0 \<le> s0 \<and> s0 < 0xF0 \<and> 3 \<le> length s \<and> lo \<le> s1 \<and> s1 \<le> hi
              \<and> 0x80 \<le> s2 \<and> s2 \<le> 0xBF)"
    and n4: "\<not> (0xF0 \<le> s0 \<and> s0 \<le> 0xF4 \<and> 4 \<le> length s \<and> lo \<le> s1 \<and> s1 \<le> hi
              \<and> 0x80 \<le> s2 \<and> s2 \<le> 0xBF \<and> 0x80 \<le> s3 \<and> s3 \<le> 0xBF)"
  shows "DecodeRuneInString s = (RuneError, 1)"
proof -
  from ne have l: "\<not> length s < 1" by (cases s) simp_all
  show ?thesis
  proof (cases "s0 < 0xC2 \<or> 0xF4 < s0")
    case True
    with l n1 show ?thesis
      by (simp add: DecodeRuneInString_def Let_def s0_def)
  next
    case range: False
    consider (two) "s0 < 0xE0" | (three) "0xE0 \<le> s0" "s0 < 0xF0" | (four) "0xF0 \<le> s0"
      by linarith
    then show ?thesis
    proof cases
      case two
      with range n2 have "length s < 2 \<or> s1 < lo \<or> hi < s1" by auto
      with l n1 range two show ?thesis
        unfolding DecodeRuneInString_def Let_def s0_def [symmetric] s1_def [symmetric]
          lo_def [symmetric] hi_def [symmetric]
        by auto
    next
      case three
      with n3 have "length s < 3 \<or> s1 < lo \<or> hi < s1 \<or> s2 < 0x80 \<or> 0xBF < s2" by auto
      with l n1 range three show ?thesis
        unfolding DecodeRuneInString_def Let_def s0_def [symmetric] s1_def [symmetric]
          s2_def [symmetric] lo_def [symmetric] hi_def [symmetric]
        by auto
    next
      case four
      with range n4 have "length s < 4 \<or> s1 < lo \<or> hi < s1 \<or> s2 < 0x80 \<or> 0xBF < s2
          \<or> s3 < 0x80 \<or> 0xBF < s3" by auto
      with l n1 range four show ?thesis
        unfolding DecodeRuneInString_def Let_def s0_def [symmetric] s1_def [symmetric]
          s2_def [symmetric] s3_def [symmetric] lo_def [symmetric] hi_def [symmetric]
        by auto
    qed
  qed
qed


lemma Decode_dichotomy:
  assumes ne: "s \<noteq> []"
  shows "DecodeRuneInString s = (RuneError, 1)
    \<or> (\<exists>r rest. r \<le> 0x10FFFF \<and> \<not> (0xD800 \<le> r \<and> r \<le> 0xDFFF) \<and> s = rune_string r @ rest)"
proof -
  define s0 s1 s2 s3 where "s0 = (of_char (s ! 0) :: nat)" and "s1 = (of_char (s ! 1) :: nat)"
    and "s2 = (of_char (s ! 2) :: nat)" and "s3 = (of_char (s ! 3) :: nat)"
  define lo hi where "lo = (if s0 = 0xE0 then 0xA0 else if s0 = 0xF0 then 0x90 else 0x80 :: nat)"
    and "hi = (if s0 = 0xED then 0x9F else if s0 = 0xF4 then 0x8F else 0xBF :: nat)"
  let ?V2 = "0xC2 \<le> s0 \<and> s0 < 0xE0 \<and> 2 \<le> length s \<and> lo \<le> s1 \<and> s1 \<le> hi"
  let ?V3 = "0xE0 \<le> s0 \<and> s0 < 0xF0 \<and> 3 \<le> length s \<and> lo \<le> s1 \<and> s1 \<le> hi
      \<and> 0x80 \<le> s2 \<and> s2 \<le> 0xBF"
  let ?V4 = "0xF0 \<le> s0 \<and> s0 \<le> 0xF4 \<and> 4 \<le> length s \<and> lo \<le> s1 \<and> s1 \<le> hi
      \<and> 0x80 \<le> s2 \<and> s2 \<le> 0xBF \<and> 0x80 \<le> s3 \<and> s3 \<le> 0xBF"
  consider (one) "s0 < 0x80" | (two) ?V2 | (three) ?V3 | (four) ?V4
    | (none) "\<not> s0 < 0x80" "\<not> ?V2" "\<not> ?V3" "\<not> ?V4"
    by blast
  then show ?thesis
  proof cases
    case one
    from ne obtain c0 t where s: "s = c0 # t" by (cases s) auto
    with one have "(of_char c0 :: nat) < 0x80" by (simp add: s0_def)
    then have "rune_string (of_char c0) = [c0]" and "(of_char c0 :: nat) \<le> 0x10FFFF"
      and "\<not> (0xD800 \<le> (of_char c0 :: nat) \<and> (of_char c0 :: nat) \<le> 0xDFFF)"
      by (simp_all add: encoding_1)
    with s have "(of_char c0 :: nat) \<le> 0x10FFFF
        \<and> \<not> (0xD800 \<le> (of_char c0 :: nat) \<and> (of_char c0 :: nat) \<le> 0xDFFF)
        \<and> s = rune_string (of_char c0) @ t" by simp
    then show ?thesis by blast
  next
    case two
    then have "2 \<le> length s" by simp
    then obtain c0 c1 t where s: "s = c0 # c1 # t"
      by (cases s; cases "tl s") auto
    have b0: "s0 = of_char c0" and b1: "s1 = of_char c1" by (simp_all add: s0_def s1_def s)
    from two have r0: "0xC2 \<le> s0" "s0 < 0xE0" by simp_all
    from two r0 have r1: "0x80 \<le> s1" "s1 \<le> 0xBF"
      by (auto simp: lo_def hi_def split: if_splits)
    from encoding_2 [OF b0 b1 r0 r1] obtain r where
      "r \<le> 0x10FFFF \<and> \<not> (0xD800 \<le> r \<and> r \<le> 0xDFFF) \<and> rune_string r = [c0, c1]" by blast
    with s have "r \<le> 0x10FFFF \<and> \<not> (0xD800 \<le> r \<and> r \<le> 0xDFFF) \<and> s = rune_string r @ t"
      by simp
    then show ?thesis by blast
  next
    case three
    then have "3 \<le> length s" by simp
    then obtain c0 c1 c2 t where s: "s = c0 # c1 # c2 # t"
      by (cases s; cases "tl s"; cases "tl (tl s)") auto
    have b0: "s0 = of_char c0" and b1: "s1 = of_char c1" and b2: "s2 = of_char c2"
      by (simp_all add: s0_def s1_def s2_def s)
    from three have r0: "0xE0 \<le> s0" "s0 < 0xF0" by simp_all
    from three r0 have r1: "(if s0 = 0xE0 then 0xA0 else 0x80) \<le> s1"
      "s1 \<le> (if s0 = 0xED then 0x9F else 0xBF)"
      by (auto simp: lo_def hi_def split: if_splits)
    from three have r2: "0x80 \<le> s2" "s2 \<le> 0xBF" by simp_all
    from encoding_3 [OF b0 b1 b2 r0 r1 r2] obtain r where
      "r \<le> 0x10FFFF \<and> \<not> (0xD800 \<le> r \<and> r \<le> 0xDFFF) \<and> rune_string r = [c0, c1, c2]" by blast
    with s have "r \<le> 0x10FFFF \<and> \<not> (0xD800 \<le> r \<and> r \<le> 0xDFFF) \<and> s = rune_string r @ t"
      by simp
    then show ?thesis by blast
  next
    case four
    then have "4 \<le> length s" by simp
    then obtain c0 c1 c2 c3 t where s: "s = c0 # c1 # c2 # c3 # t"
      by (cases s; cases "tl s"; cases "tl (tl s)"; cases "tl (tl (tl s))") auto
    have b0: "s0 = of_char c0" and b1: "s1 = of_char c1" and b2: "s2 = of_char c2"
      and b3: "s3 = of_char c3"
      by (simp_all add: s0_def s1_def s2_def s3_def s)
    from four have r0: "0xF0 \<le> s0" "s0 \<le> 0xF4" by simp_all
    from four r0 have r1: "(if s0 = 0xF0 then 0x90 else 0x80) \<le> s1"
      "s1 \<le> (if s0 = 0xF4 then 0x8F else 0xBF)"
      by (auto simp: lo_def hi_def split: if_splits)
    from four have r2: "0x80 \<le> s2" "s2 \<le> 0xBF" and r3: "0x80 \<le> s3" "s3 \<le> 0xBF" by simp_all
    from encoding_4 [OF b0 b1 b2 b3 r0 r1 r2 r3] obtain r where
      "r \<le> 0x10FFFF \<and> \<not> (0xD800 \<le> r \<and> r \<le> 0xDFFF) \<and> rune_string r = [c0, c1, c2, c3]"
      by blast
    with s have "r \<le> 0x10FFFF \<and> \<not> (0xD800 \<le> r \<and> r \<le> 0xDFFF) \<and> s = rune_string r @ t"
      by simp
    then show ?thesis by blast
  next
    case none
    have "DecodeRuneInString s = (RuneError, 1)"
      using ne none unfolding s0_def s1_def s2_def s3_def lo_def hi_def
      by (rule Decode_ill_formed)
    then show ?thesis by blast
  qed
qed

lemma capitalize_ill_formed_or_encoded:
  assumes "s \<noteq> []"
  shows "capitalize tab s = rune_string (ToTitle tab RuneError) @ tl s
    \<or> (\<exists>r rest. r \<le> 0x10FFFF \<and> \<not> (0xD800 \<le> r \<and> r \<le> 0xDFFF) \<and> s = rune_string r @ rest)"
proof -
  from Decode_dichotomy [OF assms] show ?thesis
  proof
    assume "DecodeRuneInString s = (RuneError, 1)"
    with assms have "capitalize tab s = rune_string (ToTitle tab RuneError) @ tl s"
      by (simp add: capitalize_def drop_Suc)
    then show ?thesis by blast
  next
    assume "\<exists>r rest. r \<le> 0x10FFFF \<and> \<not> (0xD800 \<le> r \<and> r \<le> 0xDFFF) \<and> s = rune_string r @ rest"
    then show ?thesis by blast
  qed
qed

text \<open>
  Claim C8, as stated, at a string that starts with the two bytes of \<^verbatim>\<open>U+01C6\<close>, the
  lower case digraph letter: \<^verbatim>\<open>capitalize\<close> puts \<^verbatim>\<open>U+01C5\<close> in its place, the title case
  letter, whereas upper-casing it (\<^verbatim>\<open>unicode.ToUpper\<close>) gives \<^verbatim>\<open>U+01C4\<close>.
\<close>

theorem capitalize_not_upper_case_counterexample:
  "DecodeRuneInString [CHR 0xC7, CHR 0x86, CHR ''x''] = (0x1C6, 2)
   \<and> capitalize CaseRanges_Latin [CHR 0xC7, CHR 0x86, CHR ''x''] = [CHR 0xC7, CHR 0x85, CHR ''x'']
   \<and> rune_string (ToUpper CaseRanges_Latin 0x1C6) @ ''x'' = [CHR 0xC7, CHR 0x84, CHR ''x'']"
proof -
  have d: "DecodeRuneInString [CHR 0xC7, CHR 0x86, CHR ''x''] = (0x1C6, 2)"
    by (simp add: DecodeRuneInString_def Let_def)
  then have "capitalize CaseRanges_Latin [CHR 0xC7, CHR 0x86, CHR ''x'']
      = [CHR 0xC7, CHR 0x85, CHR ''x'']"
    by (simp add: capitalize_def ToTitle_Latin rune_string_examples)
  with d show ?thesis by (simp add: ToTitle_Latin rune_string_examples)
qed

text \<open>
  Claim C8, amended. \<^verbatim>\<open>capitalize\<close> replaces the first decoded character of a string by
  its title case mapping (\<^verbatim>\<open>unicode.ToTitle\<close>) and leaves the remaining bytes unchanged:
  \<^item> the empty string gives the empty string, and \<open>go\<close> gives \<open>Go\<close>;
  \<^item> when the string starts with the UTF-8 encoding of a Unicode scalar value \<open>r\<close>, of
    one to four bytes, the result is the encoding of the mapping of \<open>r\<close> followed by all
    the bytes after that encoding; in general the decoded character takes at least one
    byte and no more than the string has, and the bytes after it are kept;
  \<^item> a non-empty string that does not start with such an encoding has its first byte
    replaced by the encoding of the mapping of \<^verbatim>\<open>U+FFFD\<close> and keeps all its other bytes;
  \<^item> on ASCII the mapping turns the letters \<open>a\<close> to \<open>z\<close> into \<open>A\<close> to \<open>Z\<close> and leaves
    everything else; above ASCII it adds the title case delta of the one range of the
    case table that holds the rune (or clears the low bit of the offset in a run of
    alternating cases), and leaves a rune that no range holds;
  \<^item> with the entries of Go's table, a string that starts with the two bytes of \<open>U+00E9\<close>
    comes out starting with those of \<open>U+00C9\<close>, and one that starts with those of
    \<open>U+01C6\<close> with those of \<open>U+01C5\<close>, the rest unchanged.
\<close>

theorem capitalize_title_case:
  "capitalize tab [] = []
   \<and> capitalize tab ''go'' = ''Go''
   \<and> (r \<le> 0x10FFFF \<and> \<not> (0xD800 \<le> r \<and> r \<le> 0xDFFF) \<longrightarrow>
        capitalize tab (rune_string r @ rest) = rune_string (ToTitle tab r) @ rest)
   \<and> (s \<noteq> [] \<longrightarrow>
        1 \<le> snd (DecodeRuneInString s) \<and> snd (DecodeRuneInString s) \<le> length s
        \<and> capitalize tab s
          = rune_string (ToTitle tab (fst (DecodeRuneInString s)))
            @ drop (snd (DecodeRuneInString s)) s)
   \<and> (0x61 \<le> r \<and> r \<le> 0x7A \<longrightarrow> ToTitle tab r = r - 0x20)
   \<and> (r \<le> 0x7F \<and> \<not> (0x61 \<le> r \<and> r \<le> 0x7A) \<longrightarrow> ToTitle tab r = r)
   \<and> (0x7F < r \<and> cr \<in> set tab \<and> Lo cr \<le> r \<and> r \<le> Hi cr
        \<and> (\<forall>x\<in>set tab. Lo x \<le> r \<and> r \<le> Hi x \<longrightarrow> x = cr) \<longrightarrow>
        ToTitle tab r
          = (if snd (snd (Delta cr)) > int MaxRune then Lo cr + (r - Lo cr) div 2 * 2
             else nat (int r + snd (snd (Delta cr)))))
   \<and> (0x7F < r \<and> (\<forall>x\<in>set tab. \<not> (Lo x \<le> r \<and> r \<le> Hi x)) \<longrightarrow> ToTitle tab r = r)
   \<and> capitalize CaseRanges_Latin ([CHR 0xC3, CHR 0xA9] @ rest) = [CHR 0xC3, CHR 0x89] @ rest
   \<and> capitalize CaseRanges_Latin ([CHR 0xC7, CHR 0x86] @ rest) = [CHR 0xC7, CHR 0x85] @ rest
   \<and> (s \<noteq> [] \<longrightarrow>
        capitalize tab s = rune_string (ToTitle tab RuneError) @ tl s
        \<or> (\<exists>u t. u \<le> 0x10FFFF \<and> \<not> (0xD800 \<le> u \<and> u \<le> 0xDFFF) \<and> s = rune_string u @ t
              \<and> capitalize tab s = rune_string (ToTitle tab u) @ t))"
proof (intro conjI impI)
  show "capitalize tab s = rune_string (ToTitle tab RuneError) @ tl s
      \<or> (\<exists>u t. u \<le> 0x10FFFF \<and> \<not> (0xD800 \<le> u \<and> u \<le> 0xDFFF) \<and> s = rune_string u @ t
            \<and> capitalize tab s = rune_string (ToTitle tab u) @ t)"
    if "s \<noteq> []"
  proof -
    from capitalize_ill_formed_or_encoded [OF that, of tab] show ?thesis
    proof
      assume "capitalize tab s = rune_string (ToTitle tab RuneError) @ tl s"
      then show ?thesis by (rule disjI1)
    next
      assume "\<exists>r rest. r \<le> 0x10FFFF \<and> \<not> (0xD800 \<le> r \<and> r \<le> 0xDFFF) \<and> s = rune_string r @ rest"
      then obtain u t where u: "u \<le> 0x10FFFF" "\<not> (0xD800 \<le> u \<and> u \<le> 0xDFFF)"
        and s: "s = rune_string u @ t" by blast
      have "capitalize tab (rune_string u @ t) = rune_string (ToTitle tab u) @ t"
        using u by (rule capitalize_rune_string)
      with u s show ?thesis by blast
    qed
  qed
  show "capitalize tab [] = []" by (simp add: capitalize_def)
  show "capitalize tab ''go'' = ''Go''" by (rule capitalize_go)
  show "capitalize tab (rune_string r @ rest) = rune_string (ToTitle tab r) @ rest"
    if "r \<le> 0x10FFFF \<and> \<not> (0xD800 \<le> r \<and> r \<le> 0xDFFF)"
    using that capitalize_rune_string by blast
  show "1 \<le> snd (DecodeRuneInString s)" if "s \<noteq> []"
    using Decode_width [OF that] by simp
  show "snd (DecodeRuneInString s) \<le> length s" if "s \<noteq> []"
    using Decode_width [OF that] by simp
  show "capitalize tab s
      = rune_string (ToTitle tab (fst (DecodeRuneInString s))) @ drop (snd (DecodeRuneInString s)) s"
    if "s \<noteq> []"
    using that by (simp add: capitalize_decoded)
  show "ToTitle tab r = r - 0x20" if "0x61 \<le> r \<and> r \<le> 0x7A"
    using that by (simp add: ToTitle_def)
  show "ToTitle tab r = r" if "r \<le> 0x7F \<and> \<not> (0x61 \<le> r \<and> r \<le> 0x7A)"
    using that by (auto simp: ToTitle_def)
  show "ToTitle tab r
      = (if snd (snd (Delta cr)) > int MaxRune then Lo cr + (r - Lo cr) div 2 * 2
         else nat (int r + snd (snd (Delta cr))))"
    if h: "0x7F < r \<and> cr \<in> set tab \<and> Lo cr \<le> r \<and> r \<le> Hi cr
        \<and> (\<forall>x\<in>set tab. Lo x \<le> r \<and> r \<le> Hi x \<longrightarrow> x = cr)"
  proof -
    from h have "to_case TitleCase r tab
        = (if snd (snd (Delta cr)) > int MaxRune then Lo cr + (r - Lo cr) div 2 * 2
           else nat (int r + snd (snd (Delta cr))))"
      by (intro to_case_entry) simp_all
    with h show ?thesis by (simp add: ToTitle_def)
  qed
  show "ToTitle tab r = r" if h: "0x7F < r \<and> (\<forall>x\<in>set tab. \<not> (Lo x \<le> r \<and> r \<le> Hi x))"
  proof -
    from h have "to_case TitleCase r tab = r" by (intro to_case_no_entry) simp
    with h show ?thesis by (simp add: ToTitle_def)
  qed
  show "capitalize CaseRanges_Latin ([CHR 0xC3, CHR 0xA9] @ rest) = [CHR 0xC3, CHR 0x89] @ rest"
    using capitalize_rune_string [of "0xE9" CaseRanges_Latin rest]
    by (simp add: ToTitle_Latin rune_string_examples)
  show "capitalize CaseRanges_Latin ([CHR 0xC7, CHR 0x86] @ rest) = [CHR 0xC7, CHR 0x85] @ rest"
    using capitalize_rune_string [of "0x1C6" CaseRanges_Latin rest]
    by (simp add: ToTitle_Latin rune_string_examples)
qed


theorem capitalize_title_case_witness:
  "(0xE9::nat) \<le> 0x10FFFF \<and> \<not> (0xD800 \<le> (0xE9::nat) \<and> (0xE9::nat) \<le> 0xDFFF)
   \<and> capitalize CaseRanges_Latin (rune_string 0xE9 @ ''cole'') = [CHR 0xC3, CHR 0x89] @ ''cole''
   \<and> ''x.go'' \<noteq> []
   \<and> capitalize CaseRanges_Latin ''x.go'' = ''X.go''
   \<and> (0x61::nat) \<le> 0x78 \<and> (0x78::nat) \<le> 0x7A
   \<and> ToTitle CaseRanges_Latin 0x78 = 0x58
   \<and> (0x2E::nat) \<le> 0x7F \<and> \<not> (0x61 \<le> (0x2E::nat) \<and> (0x2E::nat) \<le> 0x7A)
   \<and> ToTitle CaseRanges_Latin 0x2E = 0x2E
   \<and> (0x7F::nat) < 0xE9
   \<and> \<lparr>Lo = 0xE0, Hi = 0xF6, Delta = (- 32, 0, - 32)\<rparr> \<in> set CaseRanges_Latin
   \<and> filter (\<lambda>x. Lo x \<le> 0xE9 \<and> 0xE9 \<le> Hi x) CaseRanges_Latin
       = [\<lparr>Lo = 0xE0, Hi = 0xF6, Delta = (- 32, 0, - 32)\<rparr>]
   \<and> ToTitle CaseRanges_Latin 0xE9 = 0xC9
   \<and> (0x7F::nat) < 0x20AC
   \<and> filter (\<lambda>x. Lo x \<le> 0x20AC \<and> 0x20AC \<le> Hi x) CaseRanges_Latin = []
   \<and> ToTitle CaseRanges_Latin 0x20AC = 0x20AC"
proof -
  let ?cr = "\<lparr>Lo = 0xE0, Hi = 0xF6, Delta = (- 32, 0, - 32)\<rparr>"
  have m: "?cr \<in> set CaseRanges_Latin"
    by (simp add: CaseRanges_Latin_def)
  have u: "\<forall>x\<in>set CaseRanges_Latin. Lo x \<le> 0xE9 \<and> 0xE9 \<le> Hi x \<longrightarrow> x = ?cr"
    by (simp add: CaseRanges_Latin_def)
  have n: "\<forall>x\<in>set CaseRanges_Latin. \<not> (Lo x \<le> 0x20AC \<and> 0x20AC \<le> Hi x)"
    by (simp add: CaseRanges_Latin_def)
  have fu: "filter (\<lambda>x. Lo x \<le> 0xE9 \<and> 0xE9 \<le> Hi x) CaseRanges_Latin = [?cr]"
    by (simp add: CaseRanges_Latin_def)
  have fn: "filter (\<lambda>x. Lo x \<le> 0x20AC \<and> 0x20AC \<le> Hi x) CaseRanges_Latin = []"
    by (simp add: CaseRanges_Latin_def)
  have d: "DecodeRuneInString ''x.go'' = (0x78, 1)"
    by (simp add: DecodeRuneInString_def Let_def)
  have x: "rune_string 0x58 = ''X''"
    by (simp add: rune_string_def char_of_eq_iff)
  have v1: "(0xE9::nat) \<le> 0x10FFFF" and v2: "\<not> (0xD800 \<le> (0xE9::nat) \<and> (0xE9::nat) \<le> 0xDFFF)"
    by simp_all
  have v: "(0xE9::nat) \<le> 0x10FFFF \<and> \<not> (0xD800 \<le> (0xE9::nat) \<and> (0xE9::nat) \<le> 0xDFFF)"
    by (intro conjI v1 v2)
  have e1: "(0x7F::nat) < 0xE9" and e2: "Lo ?cr \<le> 0xE9" and e3: "0xE9 \<le> Hi ?cr"
    by simp_all
  have e: "(0x7F::nat) < 0xE9 \<and> ?cr \<in> set CaseRanges_Latin \<and> Lo ?cr \<le> 0xE9 \<and> 0xE9 \<le> Hi ?cr
      \<and> (\<forall>x\<in>set CaseRanges_Latin. Lo x \<le> 0xE9 \<and> 0xE9 \<le> Hi x \<longrightarrow> x = ?cr)"
    by (intro conjI e1 m e2 e3 u)
  have ne1: "(0x7F::nat) < 0x20AC" by simp
  have ne: "(0x7F::nat) < 0x20AC \<and> (\<forall>x\<in>set CaseRanges_Latin. \<not> (Lo x \<le> 0x20AC \<and> 0x20AC \<le> Hi x))"
    by (intro conjI ne1 n)
  have nonempty: "''x.go'' \<noteq> []" by simp
  have l1: "(0x61::nat) \<le> 0x78" and l2: "(0x78::nat) \<le> 0x7A" by simp_all
  have lower: "(0x61::nat) \<le> 0x78 \<and> (0x78::nat) \<le> 0x7A" by (intro conjI l1 l2)
  have o1: "(0x2E::nat) \<le> 0x7F" and o2: "\<not> (0x61 \<le> (0x2E::nat) \<and> (0x2E::nat) \<le> 0x7A)"
    by simp_all
  have other: "(0x2E::nat) \<le> 0x7F \<and> \<not> (0x61 \<le> (0x2E::nat) \<and> (0x2E::nat) \<le> 0x7A)"
    by (intro conjI o1 o2)
  note c3 = conjunct2 [THEN conjunct2, THEN conjunct1]
  note c4 = conjunct2 [THEN conjunct2, THEN conjunct2, THEN conjunct1]
  note c5 = conjunct2 [THEN conjunct2, THEN conjunct2, THEN conjunct2, THEN conjunct1]
  note c6 = conjunct2 [THEN conjunct2, THEN conjunct2, THEN conjunct2, THEN conjunct2,
      THEN conjunct1]
  note c7 = conjunct2 [THEN conjunct2, THEN conjunct2, THEN conjunct2, THEN conjunct2,
      THEN conjunct2, THEN conjunct1]
  note c8 = conjunct2 [THEN conjunct2, THEN conjunct2, THEN conjunct2, THEN conjunct2,
      THEN conjunct2, THEN conjunct2, THEN conjunct1]
  have "ToTitle CaseRanges_Latin 0xE9
      = (if snd (snd (Delta ?cr)) > int MaxRune then Lo ?cr + (0xE9 - Lo ?cr) div 2 * 2
         else nat (int 0xE9 + snd (snd (Delta ?cr))))"
    using capitalize_title_case [of CaseRanges_Latin "0xE9" "''cole''" "''x.go''" ?cr, THEN c7] e
    by (rule mp)
  then have t1: "ToTitle CaseRanges_Latin 0xE9 = 0xC9"
    by (simp add: MaxRune_def)
  have "capitalize CaseRanges_Latin (rune_string 0xE9 @ ''cole'')
      = rune_string (ToTitle CaseRanges_Latin 0xE9) @ ''cole''"
    using capitalize_title_case [of CaseRanges_Latin "0xE9" "''cole''" "''x.go''" ?cr, THEN c3] v
    by (rule mp)
  then have r1: "capitalize CaseRanges_Latin (rune_string 0xE9 @ ''cole'')
      = [CHR 0xC3, CHR 0x89] @ ''cole''"
    by (simp add: t1 rune_string_examples)
  have "ToTitle CaseRanges_Latin 0x78 = 0x78 - 0x20"
    using capitalize_title_case [of CaseRanges_Latin "0x78" "''cole''" "''x.go''" ?cr, THEN c5] lower
    by (rule mp)
  then have t2: "ToTitle CaseRanges_Latin 0x78 = 0x58" by simp
  have "1 \<le> snd (DecodeRuneInString ''x.go'') \<and> snd (DecodeRuneInString ''x.go'') \<le> length ''x.go''
      \<and> capitalize CaseRanges_Latin ''x.go''
        = rune_string (ToTitle CaseRanges_Latin (fst (DecodeRuneInString ''x.go'')))
          @ drop (snd (DecodeRuneInString ''x.go'')) ''x.go''"
    using capitalize_title_case [of CaseRanges_Latin "0x78" "''cole''" "''x.go''" ?cr, THEN c4] nonempty
    by (rule mp)
  then have r2: "capitalize CaseRanges_Latin ''x.go'' = ''X.go''"
    by (simp add: d t2 x)
  have t3: "ToTitle CaseRanges_Latin 0x2E = 0x2E"
    using capitalize_title_case [of CaseRanges_Latin "0x2E" "''cole''" "''x.go''" ?cr, THEN c6] other
    by (rule mp)
  have t4: "ToTitle CaseRanges_Latin 0x20AC = 0x20AC"
    using capitalize_title_case [of CaseRanges_Latin "0x20AC" "''cole''" "''x.go''" ?cr, THEN c8] ne
    by (rule mp)
  show ?thesis
    by (intro conjI) (fact v1 v2 r1 nonempty r2 l1 l2 t2 o1 o2 t3 e1 m fu t1 ne1 fn t4)+
qed

section \<open>Properties of executeGoCommand\<close>

text \<open>Whatever the three fallible calls return, the code goes on to copy and to wait.\<close>

lemma executeGoCommand_ends_with_Wait:
  "\<exists>calls. executeGoCommand x args = calls @ [go_Copy os_Stdout, go_Copy os_Stderr, Wait]"
  by (simp add: executeGoCommand_def)

text \<open>
  Claim C4, on the code: when \<^verbatim>\<open>Start\<close> fails, the error is printed, and the code then
  starts both copying goroutines and calls \<^verbatim>\<open>Wait\<close>; the same happens after a pipe
  that could not be opened.
\<close>

theorem executeGoCommand_after_failure:
  "executeGoCommand
     \<lparr>StdoutPipe_err = None, StderrPipe_err = None, Start_err = Some ''executable file not found''\<rparr>
     [''build'']
   = [exec_Command ''go'' [''build''], StdoutPipe, StderrPipe, Start,
      Println ''executable file not found'', go_Copy os_Stdout, go_Copy os_Stderr, Wait]
   \<and> executeGoCommand
     \<lparr>StdoutPipe_err = Some ''too many open files'', StderrPipe_err = None, Start_err = None\<rparr>
     [''build'']
   = [exec_Command ''go'' [''build''], StdoutPipe, Println ''too many open files'', StderrPipe,
      Start, go_Copy os_Stdout, go_Copy os_Stderr, Wait]"
  by (simp add: executeGoCommand_def)

text \<open>
  A schedule in which both goroutines copy after the child's last write and before
  \<^verbatim>\<open>Wait\<close> returns relays everything.
\<close>

lemma relay_complete_schedule:
  "relay_run [Child, Child, Copy os_Stdout, Copy os_Stderr, Child, Wait_returns]
     (relay_start [write_stdout ''out'', write_stderr ''err''])
   = Some \<lparr>child = [], exited = True, stdout_pipe = [], stderr_pipe = [],
           copied_stdout = ''out'', copied_stderr = ''err'', returned = True\<rparr>"
  by (simp add: relay_start_def)

text \<open>
  Claim C3, on the code: the child writes \<open>out\<close> to its standard output and \<open>err\<close> to
  its standard error and exits; \<^verbatim>\<open>Wait\<close> returns before either goroutine has read its
  pipe. \<^verbatim>\<open>executeGoCommand\<close> has then returned with nothing copied to either stream,
  and no further copy step is possible.
\<close>

theorem relay_returns_before_drained:
  "relay_run [Child, Child, Child, Wait_returns]
     (relay_start [write_stdout ''out'', write_stderr ''err''])
   = Some \<lparr>child = [], exited = True, stdout_pipe = ''out'', stderr_pipe = ''err'',
           copied_stdout = [], copied_stderr = [], returned = True\<rparr>
   \<and> relay_step (Copy os_Stdout)
       \<lparr>child = [], exited = True, stdout_pipe = ''out'', stderr_pipe = ''err'',
        copied_stdout = [], copied_stderr = [], returned = True\<rparr> = None
   \<and> relay_step (Copy os_Stderr)
       \<lparr>child = [], exited = True, stdout_pipe = ''out'', stderr_pipe = ''err'',
        copied_stdout = [], copied_stderr = [], returned = True\<rparr> = None"
  by (simp add: relay_start_def)

end
